theory Spec2Isabelle
  imports Complex_Main
begin

section \<open>Errors and numbers\<close>

text \<open>
  A Python string is the sequence of its code points, so it is a list of numbers here;
  \<open>ascii\<close> gives the string of a literal.
\<close>

type_synonym ustring = "nat list"

definition ascii :: "string \<Rightarrow> ustring" where
  "ascii s = map of_char s"

text \<open>
  The Python exceptions raised by the modelled code, each with its message.
  \<open>Unmodelled\<close> marks the inputs on which NumPy would broadcast masks or matrices of
  unequal shapes: the model does not follow NumPy there and says so instead of guessing.
\<close>

datatype error =
    ValueError string
  | TypeError string
  | IndexError string
  | AttributeError ustring
  | Unmodelled string

type_synonym 'a result = "error + 'a"

definition bind_result :: "'a result \<Rightarrow> ('a \<Rightarrow> 'b result) \<Rightarrow> 'b result" where
  "bind_result r f = (case r of Inl e \<Rightarrow> Inl e | Inr x \<Rightarrow> f x)"

text \<open>
  A float64 value: a finite number, an infinity or NaN. The finite numbers are the
  reals, so rounding, overflow and the sign of zero are not part of the model; the
  propagation of NaN and of the infinities through the operations is. These numbers
  serve the sums and the covariance matrices, where the properties are about which
  entries are combined and where they are put. Where a property is about the values
  that the arithmetic yields, the numbers are those of the next section.
\<close>

datatype fl = Fin real | PInf | NInf | NaN

fun fl_add :: "fl \<Rightarrow> fl \<Rightarrow> fl" where
  "fl_add NaN _ = NaN"
| "fl_add _ NaN = NaN"
| "fl_add PInf NInf = NaN"
| "fl_add NInf PInf = NaN"
| "fl_add PInf _ = PInf"
| "fl_add _ PInf = PInf"
| "fl_add NInf _ = NInf"
| "fl_add _ NInf = NInf"
| "fl_add (Fin a) (Fin b) = Fin (a + b)"

text \<open>The sign of a value that is not NaN: -1, 0 or 1.\<close>

fun fl_sign :: "fl \<Rightarrow> int" where
  "fl_sign (Fin a) = (if a < 0 then - 1 else if a = 0 then 0 else 1)"
| "fl_sign PInf = 1"
| "fl_sign NInf = - 1"
| "fl_sign NaN = 0"

definition inf_of_sign :: "int \<Rightarrow> fl" where
  "inf_of_sign s = (if s = 0 then NaN else if s < 0 then NInf else PInf)"

fun fl_mul :: "fl \<Rightarrow> fl \<Rightarrow> fl" where
  "fl_mul NaN _ = NaN"
| "fl_mul _ NaN = NaN"
| "fl_mul (Fin a) (Fin b) = Fin (a * b)"
| "fl_mul a b = inf_of_sign (fl_sign a * fl_sign b)"

section \<open>Float64 as it is\<close>

text \<open>
  The values of IEEE 754 binary64: the finite numbers (\<open>Finite 0\<close> is the positive
  zero), the negative zero, the two infinities and NaN. A finite number of the type
  stands for a float64 when it is one of the numbers that the format holds.
\<close>

datatype f64 = Finite real | MinusZero | PlusInf | MinusInf | NotANumber

text \<open>The largest finite float64, \<open>1.7976931348623157e308\<close>.\<close>

definition float_max :: real where
  "float_max = 2 ^ 1024 - 2 ^ 971"

text \<open>The nearest integer, the even one of the two when they are equally near.\<close>

definition rne :: "real \<Rightarrow> int" where
  "rne y =
     (let f = \<lfloor>y\<rfloor>
      in if y - of_int f < 1 / 2 then f
         else if 1 / 2 < y - of_int f then f + 1
         else if even f then f else f + 1)"

text \<open>
  Rounding to the nearest float64, the exponent not bounded above: a number in
  \<open>[2^e, 2^(e+1))\<close> is rounded to a multiple of \<open>2^(e-52)\<close>, and every number below
  \<open>2^(-1022)\<close> in magnitude to a multiple of \<open>2^(-1074)\<close> (the subnormal numbers).
\<close>

definition binade :: "real \<Rightarrow> int" where
  "binade x = max \<lfloor>log 2 \<bar>x\<bar>\<rfloor> (- 1022)"

definition round64 :: "real \<Rightarrow> real" where
  "round64 x =
     (if x = 0 then 0
      else of_int (rne (x / 2 powi (binade x - 52))) * 2 powi (binade x - 52))"

text \<open>
  The float64 of an exact result: what rounds beyond the largest float64 is an
  infinity, what rounds to zero is the zero of the given sign.
\<close>

definition pack :: "bool \<Rightarrow> real \<Rightarrow> f64" where
  "pack neg r =
     (let q = round64 r
      in if float_max < q then PlusInf
         else if q < - float_max then MinusInf
         else if q = 0 then (if neg then MinusZero else Finite 0)
         else Finite q)"

fun is_nan :: "f64 \<Rightarrow> bool" where
  "is_nan NotANumber = True"
| "is_nan _ = False"

fun is_inf :: "f64 \<Rightarrow> bool" where
  "is_inf PlusInf = True"
| "is_inf MinusInf = True"
| "is_inf _ = False"

fun is_zero :: "f64 \<Rightarrow> bool" where
  "is_zero (Finite r) = (r = 0)"
| "is_zero MinusZero = True"
| "is_zero _ = False"

text \<open>The sign bit (of a value that is not NaN) and the number of a finite value.\<close>

fun is_neg :: "f64 \<Rightarrow> bool" where
  "is_neg (Finite r) = (r < 0)"
| "is_neg MinusZero = True"
| "is_neg MinusInf = True"
| "is_neg _ = False"

fun val :: "f64 \<Rightarrow> real" where
  "val (Finite r) = r"
| "val _ = 0"

definition signed_inf :: "bool \<Rightarrow> f64" where
  "signed_inf neg = (if neg then MinusInf else PlusInf)"

definition signed_zero :: "bool \<Rightarrow> f64" where
  "signed_zero neg = (if neg then MinusZero else Finite 0)"

fun f64_neg :: "f64 \<Rightarrow> f64" where
  "f64_neg (Finite r) = (if r = 0 then MinusZero else Finite (- r))"
| "f64_neg MinusZero = Finite 0"
| "f64_neg PlusInf = MinusInf"
| "f64_neg MinusInf = PlusInf"
| "f64_neg NotANumber = NotANumber"

text \<open>
  Addition: the infinities of opposite signs give NaN; an exact sum of zero is the
  negative zero only when both terms are negative.
\<close>

definition f64_add :: "f64 \<Rightarrow> f64 \<Rightarrow> f64" where
  "f64_add x y =
     (if is_nan x \<or> is_nan y then NotANumber
      else if is_inf x then (if is_inf y \<and> is_neg x \<noteq> is_neg y then NotANumber else x)
      else if is_inf y then y
      else (let r = val x + val y
            in pack (if r = 0 then is_neg x \<and> is_neg y else r < 0) r))"

definition f64_sub :: "f64 \<Rightarrow> f64 \<Rightarrow> f64" where
  "f64_sub x y = f64_add x (f64_neg y)"

text \<open>Multiplication: an infinity times a zero is NaN; the sign is the product of
  the signs.\<close>

definition f64_mul :: "f64 \<Rightarrow> f64 \<Rightarrow> f64" where
  "f64_mul x y =
     (if is_nan x \<or> is_nan y then NotANumber
      else if is_inf x \<or> is_inf y then
        (if is_zero x \<or> is_zero y then NotANumber else signed_inf (is_neg x \<noteq> is_neg y))
      else pack (is_neg x \<noteq> is_neg y) (val x * val y))"

text \<open>
  Division, as NumPy performs it with the warnings silenced: a zero over a zero and an
  infinity over an infinity are NaN, another number over a zero is an infinity, a
  finite number over an infinity is a zero; the sign is the product of the signs.
\<close>

definition f64_div :: "f64 \<Rightarrow> f64 \<Rightarrow> f64" where
  "f64_div x y =
     (if is_nan x \<or> is_nan y then NotANumber
      else if is_inf x then
        (if is_inf y then NotANumber else signed_inf (is_neg x \<noteq> is_neg y))
      else if is_inf y then signed_zero (is_neg x \<noteq> is_neg y)
      else if is_zero y then
        (if is_zero x then NotANumber else signed_inf (is_neg x \<noteq> is_neg y))
      else pack (is_neg x \<noteq> is_neg y) (val x / val y))"

text \<open>The square root: NaN for a negative number, the negative zero for itself.\<close>

fun f64_sqrt :: "f64 \<Rightarrow> f64" where
  "f64_sqrt (Finite r) = (if r < 0 then NotANumber else pack False (sqrt r))"
| "f64_sqrt MinusZero = MinusZero"
| "f64_sqrt PlusInf = PlusInf"
| "f64_sqrt MinusInf = NotANumber"
| "f64_sqrt NotANumber = NotANumber"

section \<open>Arrays\<close>

text \<open>An n-dimensional array: its shape and its entries in row-major order.\<close>

record 'a ndarray =
  shape :: "nat list"
  flat :: "'a list"

text \<open>\<open>np.sum(a, dtype=np.float64)\<close>: the sum of all entries, zero for no entry.\<close>

definition np_sum :: "fl list \<Rightarrow> fl" where
  "np_sum xs = foldl fl_add (Fin 0) xs"

text \<open>
  \<open>a[mask]\<close> with a boolean array: the entries of \<open>a\<close> where the mask is true, in
  row-major order. NumPy raises IndexError unless the two shapes agree.
\<close>

definition bool_index :: "'a ndarray \<Rightarrow> bool ndarray \<Rightarrow> 'a list result" where
  "bool_index a m =
     (if shape m = shape a \<and> length (flat m) = length (flat a)
      then Inr (map snd (filter fst (zip (flat m) (flat a))))
      else Inl (IndexError ''boolean index did not match indexed array''))"

text \<open>
  \<open>mask_safe & mask_fit\<close>: the conjunction entry by entry of two masks of the same
  shape. Masks of different shapes are outside the model.
\<close>

definition mask_and :: "bool ndarray \<Rightarrow> bool ndarray \<Rightarrow> bool ndarray result" where
  "mask_and a b =
     (if shape a = shape b \<and> length (flat a) = length (flat b)
      then Inr \<lparr>shape = shape a, flat = map2 (\<and>) (flat a) (flat b)\<rparr>
      else Inl (Unmodelled ''masks of different shapes''))"

section \<open>Dataset\<close>

text \<open>
  One dataset. \<open>obj_id\<close> is the identity of the Python object; \<open>stat_array\<close> is the
  array that the abstract method of the same name returns for the current model
  parameters.
\<close>

record dataset =
  obj_id :: nat
  name :: string
  mask_safe :: "bool ndarray option"
  mask_fit :: "bool ndarray option"
  stat_array :: "fl ndarray"

definition mask :: "dataset \<Rightarrow> bool ndarray option result" where
  "mask d =
     (case (mask_safe d, mask_fit d) of
        (Some s, Some f) \<Rightarrow> bind_result (mask_and s f) (\<lambda>m. Inr (Some m))
      | (_, Some f) \<Rightarrow> Inr (Some f)
      | (Some s, None) \<Rightarrow> Inr (Some s)
      | (None, None) \<Rightarrow> Inr None)"

definition Dataset_stat_sum :: "dataset \<Rightarrow> fl result" where
  "Dataset_stat_sum d =
     (let stat = stat_array d in
      bind_result (mask d) (\<lambda>m.
        case m of
          Some mk \<Rightarrow> bind_result (bool_index stat mk) (\<lambda>sel. Inr (np_sum sel))
        | None \<Rightarrow> Inr (np_sum (flat stat))))"

section \<open>Datasets\<close>

record Datasets =
  datasets :: "dataset list"

text \<open>What a caller may pass where a dataset is expected: a dataset, or anything else
  (with the text of its \<open>repr\<close> and of the \<open>repr\<close> of its type).\<close>

datatype pyobj = IsDataset dataset | Other string string

datatype init_arg =
    ArgNone
  | ArgDatasets Datasets
  | ArgDataset dataset
  | ArgList "dataset list"
  | ArgOther string

text \<open>The loop of the constructor over the names seen so far.\<close>

fun check_unique :: "string list \<Rightarrow> dataset list \<Rightarrow> unit result" where
  "check_unique unique_names [] = Inr ()"
| "check_unique unique_names (d # ds) =
     (if name d \<in> set unique_names
      then Inl (ValueError ''Dataset names must be unique'')
      else check_unique (unique_names @ [name d]) ds)"

definition Datasets_init :: "init_arg \<Rightarrow> Datasets result" where
  "Datasets_init arg =
     bind_result
       (case arg of
          ArgNone \<Rightarrow> Inr []
        | ArgDatasets D \<Rightarrow> Inr (datasets D)
        | ArgDataset d \<Rightarrow> Inr [d]
        | ArgList ds \<Rightarrow> Inr ds
        | ArgOther r \<Rightarrow> Inl (TypeError (''Invalid type: '' @ r)))
       (\<lambda>ds. bind_result (check_unique [] ds) (\<lambda>_. Inr \<lparr>datasets = ds\<rparr>))"

definition names :: "Datasets \<Rightarrow> string list" where
  "names D = map name (datasets D)"

definition len :: "Datasets \<Rightarrow> nat" where
  "len D = length (datasets D)"

text \<open>The loop of \<open>Datasets.stat_sum\<close>: the running total and the datasets still to
  visit. An exception of a dataset ends the loop.\<close>

fun stat_sum_loop :: "fl \<Rightarrow> dataset list \<Rightarrow> fl result" where
  "stat_sum_loop stat_sum [] = Inr stat_sum"
| "stat_sum_loop stat_sum (d # ds) =
     (case Dataset_stat_sum d of
        Inl e \<Rightarrow> Inl e
      | Inr s \<Rightarrow> stat_sum_loop (fl_add stat_sum s) ds)"

definition Datasets_stat_sum :: "Datasets \<Rightarrow> fl result" where
  "Datasets_stat_sum D = stat_sum_loop (Fin 0) (datasets D)"

text \<open>
  \<open>Datasets.index\<close>: an integer or a slice is returned as it is, a string is looked
  up among the names, a dataset among the members (by identity).
\<close>

datatype key =
    KInt int
  | KSlice "int option" "int option" "int option"
  | KStr string
  | KDataset dataset
  | KOther string

datatype position = PInt int | PSlice "int option" "int option" "int option"

fun list_index :: "('a \<Rightarrow> bool) \<Rightarrow> 'a list \<Rightarrow> nat option" where
  "list_index P [] = None"
| "list_index P (x # xs) =
     (if P x then Some 0 else map_option Suc (list_index P xs))"

definition Datasets_index :: "Datasets \<Rightarrow> key \<Rightarrow> position result" where
  "Datasets_index D k =
     (case k of
        KInt i \<Rightarrow> Inr (PInt i)
      | KSlice a b c \<Rightarrow> Inr (PSlice a b c)
      | KStr s \<Rightarrow>
          (case list_index (\<lambda>n. n = s) (names D) of
             Some i \<Rightarrow> Inr (PInt (int i))
           | None \<Rightarrow> Inl (ValueError ''value is not in list''))
      | KDataset d \<Rightarrow>
          (case list_index (\<lambda>x. obj_id x = obj_id d) (datasets D) of
             Some i \<Rightarrow> Inr (PInt (int i))
           | None \<Rightarrow> Inl (ValueError ''value is not in list''))
      | KOther t \<Rightarrow> Inl (TypeError (''Invalid type: '' @ t)))"

text \<open>\<open>xs[i] = v\<close> on a Python list: a negative index counts from the end, an index
  out of range raises.\<close>

definition list_setitem :: "'a list \<Rightarrow> int \<Rightarrow> 'a \<Rightarrow> 'a list result" where
  "list_setitem xs i v =
     (let n = int (length xs); j = (if i < 0 then i + n else i)
      in if 0 \<le> j \<and> j < n then Inr (xs[nat j := v])
         else Inl (IndexError ''list assignment index out of range''))"

text \<open>\<open>xs.insert(i, v)\<close> on a Python list: the index is clipped to the list.\<close>

definition list_insert :: "'a list \<Rightarrow> int \<Rightarrow> 'a \<Rightarrow> 'a list" where
  "list_insert xs i v =
     (let n = int (length xs); j = (if i < 0 then max 0 (i + n) else min i n)
      in take (nat j) xs @ v # drop (nat j) xs)"

text \<open>
  The two mutators return the exception raised, if any, and the collection as the call
  leaves it.
\<close>

definition Datasets_setitem :: "Datasets \<Rightarrow> key \<Rightarrow> pyobj \<Rightarrow> error option \<times> Datasets" where
  "Datasets_setitem D k v =
     (case v of
        IsDataset d \<Rightarrow>
          if name d \<in> set (names D)
          then (Some (ValueError ''Dataset names must be unique''), D)
          else (case Datasets_index D k of
                  Inl e \<Rightarrow> (Some e, D)
                | Inr (PInt i) \<Rightarrow>
                    (case list_setitem (datasets D) i d of
                       Inl e \<Rightarrow> (Some e, D)
                     | Inr ds \<Rightarrow> (None, D\<lparr>datasets := ds\<rparr>))
                | Inr (PSlice a b c) \<Rightarrow>
                    (Some (TypeError ''can only assign an iterable''), D))
      | Other r t \<Rightarrow> (Some (TypeError (''Invalid type: '' @ t)), D))"

definition Datasets_insert :: "Datasets \<Rightarrow> int \<Rightarrow> pyobj \<Rightarrow> error option \<times> Datasets" where
  "Datasets_insert D idx v =
     (case v of
        IsDataset d \<Rightarrow>
          if name d \<in> set (names D)
          then (Some (ValueError ''Dataset names must be unique''), D)
          else (None, D\<lparr>datasets := list_insert (datasets D) idx d\<rparr>)
      | Other r t \<Rightarrow> (Some (TypeError (''Invalid type: '' @ t)), D))"

section \<open>Residuals\<close>

text \<open>
  NumPy's broadcasting of two shapes. The shapes are aligned at their last axis; two
  lengths of an axis agree when they are equal or when one of them is 1, and the other
  one is then the length of the result; an axis that one shape lacks is taken from the
  other shape. The function works on the reversed shapes, last axis first.
\<close>

fun broadcast_rev :: "nat list \<Rightarrow> nat list \<Rightarrow> nat list option" where
  "broadcast_rev [] ys = Some ys"
| "broadcast_rev (x # xs) [] = Some (x # xs)"
| "broadcast_rev (x # xs) (y # ys) =
     (if x = y \<or> y = 1 then map_option ((#) x) (broadcast_rev xs ys)
      else if x = 1 then map_option ((#) y) (broadcast_rev xs ys)
      else None)"

definition broadcast_shapes :: "nat list \<Rightarrow> nat list \<Rightarrow> nat list option" where
  "broadcast_shapes s t = map_option rev (broadcast_rev (rev s) (rev t))"

text \<open>
  The position, in the row-major entries of an array of reversed shape \<open>xs\<close>, of the
  entry that broadcasting puts at position \<open>k\<close> of the result of reversed shape \<open>ds\<close>:
  along an axis of length 1 of the array the index is 0, along another axis it is the
  index of the result.
\<close>

fun source_rev :: "nat list \<Rightarrow> nat list \<Rightarrow> nat \<Rightarrow> nat" where
  "source_rev (x # xs) (d # ds) k =
     (if x = 1 then 0 else k mod d) + x * source_rev xs ds (k div d)"
| "source_rev _ _ k = 0"

definition source_index :: "nat list \<Rightarrow> nat list \<Rightarrow> nat \<Rightarrow> nat" where
  "source_index s t k = source_rev (rev s) (rev t) k"

text \<open>An array has as many entries as its shape says.\<close>

definition is_array :: "'a ndarray \<Rightarrow> bool" where
  "is_array a = (length (flat a) = prod_list (shape a))"

text \<open>
  An arithmetic operator between two arrays, entry by entry after broadcasting; NumPy
  raises ValueError for shapes that do not broadcast (its message, which also gives the
  two shapes, is shortened). A function applied to every entry of an array.
\<close>

definition np_binop :: "('a \<Rightarrow> 'a \<Rightarrow> 'a) \<Rightarrow> 'a ndarray \<Rightarrow> 'a ndarray \<Rightarrow> 'a ndarray result" where
  "np_binop f a b =
     (case broadcast_shapes (shape a) (shape b) of
        None \<Rightarrow> Inl (ValueError ''operands could not be broadcast together'')
      | Some s \<Rightarrow>
          Inr \<lparr>shape = s,
               flat = map (\<lambda>k. f (flat a ! source_index (shape a) s k)
                                  (flat b ! source_index (shape b) s k))
                          [0..<prod_list s]\<rparr>)"

definition np_unop :: "('a \<Rightarrow> 'a) \<Rightarrow> 'a ndarray \<Rightarrow> 'a ndarray" where
  "np_unop f a = a\<lparr>flat := map f (flat a)\<rparr>"

text \<open>
  What NumPy does to the entries for \<open>-\<close>, \<open>/\<close> and \<open>np.sqrt\<close>, for the type of the
  entries of the arrays. \<open>_compute_residuals\<close> chooses among these operations and
  combines them; it takes them from the arrays it is given, so they are parameters.
\<close>

record 'a entry_ops =
  sub_op :: "'a \<Rightarrow> 'a \<Rightarrow> 'a"
  div_op :: "'a \<Rightarrow> 'a \<Rightarrow> 'a"
  sqrt_op :: "'a \<Rightarrow> 'a"

text \<open>The operations of float64.\<close>

definition float64_ops :: "f64 entry_ops" where
  "float64_ops = \<lparr>sub_op = f64_sub, div_op = f64_div, sqrt_op = f64_sqrt\<rparr>"

text \<open>
  \<open>repr\<close> of a Python string. The quotes are single quotes unless the string holds a
  single quote and no double quote. The quote and the backslash are escaped with a
  backslash, tab, newline and carriage return by their letter, the other characters
  that are not printable by their number in hexadecimal, with two, four or eight digits.
  The printable characters are those of ASCII from the space to the tilde, those of
  Latin-1 after the no-break space other than the soft hyphen, and beyond Latin-1 those
  that the Unicode database gives as printable: that part of the database is the
  parameter \<open>table\<close>.
\<close>

definition squote :: nat where "squote = 39"
definition dquote :: nat where "dquote = 34"
definition backslash :: nat where "backslash = 92"

definition hex_digits :: "nat \<Rightarrow> nat \<Rightarrow> ustring" where
  "hex_digits k n =
     map (\<lambda>i. of_char (''0123456789abcdef'' ! ((n div 16 ^ (k - 1 - i)) mod 16))) [0..<k]"

definition isprintable :: "(nat \<Rightarrow> bool) \<Rightarrow> nat \<Rightarrow> bool" where
  "isprintable table c =
     (if c < 128 then 32 \<le> c \<and> c < 127
      else if c < 256 then 160 < c \<and> c \<noteq> 173
      else table c)"

definition escape_char :: "(nat \<Rightarrow> bool) \<Rightarrow> nat \<Rightarrow> nat \<Rightarrow> ustring" where
  "escape_char table q c =
     (if c = q \<or> c = backslash then [backslash, c]
      else if c = 9 then backslash # ascii ''t''
      else if c = 10 then backslash # ascii ''n''
      else if c = 13 then backslash # ascii ''r''
      else if isprintable table c then [c]
      else if c < 256 then backslash # ascii ''x'' @ hex_digits 2 c
      else if c < 65536 then backslash # ascii ''u'' @ hex_digits 4 c
      else backslash # ascii ''U'' @ hex_digits 8 c)"

definition py_repr :: "(nat \<Rightarrow> bool) \<Rightarrow> ustring \<Rightarrow> ustring" where
  "py_repr table s =
     (let q = (if squote \<in> set s \<and> dquote \<notin> set s then dquote else squote)
      in q # concat (map (escape_char table q) s) @ [q])"

definition invalid_method_message :: "(nat \<Rightarrow> bool) \<Rightarrow> ustring \<Rightarrow> ustring" where
  "invalid_method_message table method =
     ascii ''Invalid method: '' @ py_repr table method @ ascii ''. Choose between '' @
     [squote] @ ascii ''diff'' @ [squote] @ ascii '', '' @
     [squote] @ ascii ''diff/model'' @ [squote] @ ascii '' and '' @
     [squote] @ ascii ''diff/sqrt(model)'' @ [squote]"

text \<open>
  \<open>Dataset._compute_residuals(data, model, method)\<close>. The method is compared with the
  three names in the order of the source, and any other method raises AttributeError.
  Under \<open>np.errstate(invalid="ignore")\<close> an invalid operation gives NaN and a division by
  zero gives an infinity with a warning; neither is an exception, so the three methods
  return whenever the shapes broadcast.
\<close>

definition compute_residuals ::
  "'a entry_ops \<Rightarrow> (nat \<Rightarrow> bool) \<Rightarrow> 'a ndarray \<Rightarrow> 'a ndarray \<Rightarrow> ustring \<Rightarrow> 'a ndarray result" where
  "compute_residuals ops table data model method =
     (if method = ascii ''diff'' then np_binop (sub_op ops) data model
      else if method = ascii ''diff/model'' then
        bind_result (np_binop (sub_op ops) data model) (\<lambda>r. np_binop (div_op ops) r model)
      else if method = ascii ''diff/sqrt(model)'' then
        bind_result (np_binop (sub_op ops) data model)
          (\<lambda>r. np_binop (div_op ops) r (np_unop (sqrt_op ops) model))
      else Inl (AttributeError (invalid_method_message table method)))"

section \<open>Parameters\<close>

text \<open>
  A parameter of a model. \<open>par_id\<close> is the identity of the Python object: a pool is a
  sequence of references, and two references are the same parameter when they are the
  same object.
\<close>

record parameter =
  par_id :: nat
  par_name :: string
  par_value :: fl
  par_error :: fl
  par_scale :: fl
  par_frozen :: bool

text \<open>
  Modelled from the spec: \<open>Parameters.index\<close> is not part of the sources at hand.
  The spec gives the pool an "index lookup by identity": the position of the first
  reference to the parameter, and an error when the pool does not hold it.
\<close>

definition Parameters_index :: "parameter list \<Rightarrow> parameter \<Rightarrow> nat result" where
  "Parameters_index pool p =
     (case list_index (\<lambda>q. par_id q = par_id p) pool of
        Some i \<Rightarrow> Inr i
      | None \<Rightarrow> Inl (ValueError ''parameter is not in list''))"

text \<open>
  Modelled from the spec: \<open>Parameters.from_stack\<close> is not part of the sources at hand.
  The spec has it concatenate the pools, keeping the order of each pool and merging
  shared references: a parameter already met is not taken again.
\<close>

fun unique_parameters :: "parameter list \<Rightarrow> parameter list \<Rightarrow> parameter list" where
  "unique_parameters seen [] = seen"
| "unique_parameters seen (p # ps) =
     (if par_id p \<in> par_id ` set seen then unique_parameters seen ps
      else unique_parameters (seen @ [p]) ps)"

definition Parameters_from_stack :: "parameter list list \<Rightarrow> parameter list" where
  "Parameters_from_stack pools = unique_parameters [] (concat pools)"

section \<open>Matrices\<close>

text \<open>
  A two-dimensional array is the list of its rows. \<open>is_matrix r c m\<close> says that \<open>m\<close>
  has \<open>r\<close> rows of \<open>c\<close> entries.
\<close>

definition is_matrix :: "nat \<Rightarrow> nat \<Rightarrow> 'a list list \<Rightarrow> bool" where
  "is_matrix r c m = (length m = r \<and> list_all (\<lambda>row. length row = c) m)"

definition same_shape :: "'a list list \<Rightarrow> 'b list list \<Rightarrow> bool" where
  "same_shape a b = (length a = length b \<and> list_all2 (\<lambda>x y. length x = length y) a b)"

definition np_zeros :: "nat \<Rightarrow> nat \<Rightarrow> fl list list" where
  "np_zeros r c = replicate r (replicate c (Fin 0))"

text \<open>\<open>np.diag\<close> of a vector: the square matrix with the vector on its diagonal.\<close>

definition np_diag :: "fl list \<Rightarrow> fl list list" where
  "np_diag v =
     map (\<lambda>i. map (\<lambda>j. if i = j then v ! i else Fin 0) [0..<length v]) [0..<length v]"

text \<open>\<open>np.diag\<close> of a matrix: its diagonal.\<close>

definition np_diagonal :: "'a list list \<Rightarrow> 'a list" where
  "np_diagonal m =
     map (\<lambda>i. m ! i ! i) [0..<min (length m) (case m of [] \<Rightarrow> 0 | row # _ \<Rightarrow> length row)]"

definition np_outer :: "fl list \<Rightarrow> fl list \<Rightarrow> fl list list" where
  "np_outer a b = map (\<lambda>x. map (\<lambda>y. fl_mul x y) b) a"

text \<open>An arithmetic operator between two matrices of one shape, entry by entry.\<close>

definition np_binop2 ::
  "('a \<Rightarrow> 'a \<Rightarrow> 'a) \<Rightarrow> 'a list list \<Rightarrow> 'a list list \<Rightarrow> 'a list list result" where
  "np_binop2 f a b =
     (if same_shape a b then Inr (map2 (map2 f) a b)
      else Inl (Unmodelled ''operands of different shapes''))"

text \<open>
  \<open>np.allclose\<close> with its default tolerances: two finite entries are close when
  \<open>|a - b| \<le> 1e-8 + 1e-5 * |b|\<close>, an infinity is close to itself only, NaN to nothing.
\<close>

fun fl_isclose :: "fl \<Rightarrow> fl \<Rightarrow> bool" where
  "fl_isclose (Fin a) (Fin b) = (\<bar>a - b\<bar> \<le> 1 / 10 ^ 8 + (1 / 10 ^ 5) * \<bar>b\<bar>)"
| "fl_isclose PInf PInf = True"
| "fl_isclose NInf NInf = True"
| "fl_isclose _ _ = False"

definition np_allclose :: "fl list list \<Rightarrow> fl list list \<Rightarrow> bool result" where
  "np_allclose a b =
     (if same_shape a b then Inr (list_all2 (list_all2 fl_isclose) a b)
      else Inl (Unmodelled ''operands of different shapes''))"

text \<open>\<open>a[np.ix_(idx, idx)]\<close>: the entries at the rows and the columns of \<open>idx\<close>.\<close>

definition ix_get :: "'a list list \<Rightarrow> nat list \<Rightarrow> 'a list list result" where
  "ix_get a idx =
     (if list_all (\<lambda>i. i < length a \<and> list_all (\<lambda>j. j < length (a ! i)) idx) idx
      then Inr (map (\<lambda>i. map (\<lambda>j. a ! i ! j) idx) idx)
      else Inl (IndexError ''index is out of bounds''))"

text \<open>\<open>a[idx, :] = 0\<close> and \<open>a[:, idx] = 0\<close>.\<close>

definition zero_rows :: "fl list list \<Rightarrow> nat list \<Rightarrow> fl list list" where
  "zero_rows a idx =
     map (\<lambda>i. if i \<in> set idx then map (\<lambda>_. Fin 0) (a ! i) else a ! i) [0..<length a]"

definition zero_cols :: "fl list list \<Rightarrow> nat list \<Rightarrow> fl list list" where
  "zero_cols a idx =
     map (\<lambda>row. map (\<lambda>j. if j \<in> set idx then Fin 0 else row ! j) [0..<length row]) a"

text \<open>The last position of a value in a list.\<close>

fun last_index :: "'a list \<Rightarrow> 'a \<Rightarrow> nat option" where
  "last_index [] x = None"
| "last_index (y # ys) x =
     (case last_index ys x of
        Some a \<Rightarrow> Some (Suc a)
      | None \<Rightarrow> if y = x then Some 0 else None)"

text \<open>
  \<open>a[np.ix_(idx, idx)] = v\<close> for \<open>v\<close> of the shape of the block: the entry at row
  \<open>idx[p]\<close> and column \<open>idx[q]\<close> becomes \<open>v[p][q]\<close>; where an index is repeated the
  last assignment stays.
\<close>

definition ix_set :: "'a list list \<Rightarrow> nat list \<Rightarrow> 'a list list \<Rightarrow> 'a list list result" where
  "ix_set a idx v =
     (if \<not> list_all (\<lambda>i. i < length a \<and> list_all (\<lambda>j. j < length (a ! i)) idx) idx
        then Inl (IndexError ''index is out of bounds'')
      else if \<not> is_matrix (length idx) (length idx) v
        then Inl (Unmodelled ''value of another shape than the block'')
      else Inr (map (\<lambda>i. map (\<lambda>j.
              case (last_index idx i, last_index idx j) of
                (Some p, Some q) \<Rightarrow> v ! p ! q
              | _ \<Rightarrow> a ! i ! j) [0..<length (a ! i)]) [0..<length a]))"

text \<open>
  \<open>a[mask] = values\<close> with a boolean matrix: the true positions, row after row, take
  the values in their order. One value alone is given to every true position; any other
  number of values than the number of true positions is refused.
\<close>

fun fill_row :: "bool list \<Rightarrow> 'a list \<Rightarrow> 'a list \<Rightarrow> 'a list \<times> 'a list" where
  "fill_row (b # bs) (x # xs) vs =
     (if b then (case vs of
                   v # vs' \<Rightarrow> (let (r, rest) = fill_row bs xs vs' in (v # r, rest))
                 | [] \<Rightarrow> (let (r, rest) = fill_row bs xs [] in (x # r, rest)))
      else (let (r, rest) = fill_row bs xs vs in (x # r, rest)))"
| "fill_row _ xs vs = (xs, vs)"

fun fill_rows :: "bool list list \<Rightarrow> 'a list list \<Rightarrow> 'a list \<Rightarrow> 'a list list" where
  "fill_rows (m # ms) (r # rs) vs =
     (let (r', rest) = fill_row m r vs in r' # fill_rows ms rs rest)"
| "fill_rows _ rs vs = rs"

definition count_true :: "bool list list \<Rightarrow> nat" where
  "count_true m = length (filter (\<lambda>b. b) (concat m))"

definition bool_assign :: "'a list list \<Rightarrow> bool list list \<Rightarrow> 'a list \<Rightarrow> 'a list list result" where
  "bool_assign a m vs =
     (if \<not> same_shape m a then Inl (IndexError ''boolean index did not match indexed array'')
      else if length vs = count_true m then Inr (fill_rows m a vs)
      else if length vs = 1 then Inr (fill_rows m a (replicate (count_true m) (hd vs)))
      else Inl (ValueError ''cannot assign the input values to the output values where the mask is true''))"

section \<open>Covariance\<close>

record covariance =
  parameters :: "parameter list"
  filename :: "string option"
  data :: "fl list list"

definition Covariance_init ::
  "parameter list \<Rightarrow> fl list list option \<Rightarrow> string option \<Rightarrow> covariance" where
  "Covariance_init pars data_arg fname =
     \<lparr>parameters = pars, filename = fname,
      data = (case data_arg of
                None \<Rightarrow> np_diag (map (\<lambda>p. fl_mul (par_error p) (par_error p)) pars)
              | Some d \<Rightarrow> d)\<rparr>"

definition expand_factor_matrix :: "fl list list \<Rightarrow> parameter list \<Rightarrow> fl list list result" where
  "expand_factor_matrix matrix pars =
     (let npars = length pars;
          matrix_expanded = np_zeros npars npars;
          mask = map par_frozen pars;
          free_parameters = map (\<lambda>mi. map (\<lambda>mj. \<not> (mj \<or> mi)) mask) mask
      in bool_assign matrix_expanded free_parameters (concat matrix))"

definition from_factor_matrix :: "parameter list \<Rightarrow> fl list list \<Rightarrow> covariance result" where
  "from_factor_matrix pars matrix =
     (let npars = length pars in
      bind_result
        (if \<not> is_matrix npars npars matrix then expand_factor_matrix matrix pars
         else Inr matrix)
        (\<lambda>matrix.
           let scales = map par_scale pars;
               scale_matrix = np_outer scales scales
           in bind_result (np_binop2 fl_mul scale_matrix matrix)
                (\<lambda>data. Inr (Covariance_init pars (Some data) None))))"

definition parameter_indices :: "parameter list \<Rightarrow> parameter list \<Rightarrow> nat list result" where
  "parameter_indices pool ps =
     foldr (\<lambda>p r. bind_result (Parameters_index pool p)
                    (\<lambda>i. bind_result r (\<lambda>is. Inr (i # is)))) ps (Inr [])"

definition get_subcovariance :: "covariance \<Rightarrow> parameter list \<Rightarrow> covariance result" where
  "get_subcovariance C ps =
     bind_result (parameter_indices (parameters C) ps) (\<lambda>idx.
     bind_result (ix_get (data C) idx) (\<lambda>d.
       Inr (Covariance_init ps (Some d) None)))"

definition set_subcovariance :: "covariance \<Rightarrow> covariance \<Rightarrow> covariance result" where
  "set_subcovariance C covar =
     bind_result (parameter_indices (parameters C) (parameters covar)) (\<lambda>idx.
     bind_result (ix_get (data C) idx) (\<lambda>block.
     bind_result (np_allclose block (data covar)) (\<lambda>close.
       let d = (if \<not> close then zero_cols (zero_rows (data C) idx) idx else data C)
       in bind_result (ix_set d idx (data covar)) (\<lambda>d'. Inr (C\<lparr>data := d'\<rparr>)))))"

text \<open>The loop of \<open>from_stack\<close> over the sub-covariances.\<close>

fun set_subcovariances :: "covariance \<Rightarrow> covariance list \<Rightarrow> covariance result" where
  "set_subcovariances covar [] = Inr covar"
| "set_subcovariances covar (subcovar # rest) =
     bind_result (set_subcovariance covar subcovar) (\<lambda>c. set_subcovariances c rest)"

definition Covariance_from_stack :: "covariance list \<Rightarrow> covariance result" where
  "Covariance_from_stack covar_list =
     (let pars = Parameters_from_stack (map parameters covar_list);
          covar = Covariance_init pars None None
      in set_subcovariances covar covar_list)"

text \<open>
  The stacking as the spec words it: the same steps from a covariance of zeros over the
  stacked pool.
\<close>

definition from_stack_from_zeros :: "covariance list \<Rightarrow> covariance result" where
  "from_stack_from_zeros covar_list =
     (let pars = Parameters_from_stack (map parameters covar_list);
          covar = Covariance_init pars (Some (np_zeros (length pars) (length pars))) None
      in set_subcovariances covar covar_list)"



text \<open>
  \<open>np.nan_to_num\<close> with its default arguments: NaN becomes zero, an infinity becomes
  the finite float64 of the largest magnitude and of the same sign.
\<close>

fun nan_to_num :: "f64 \<Rightarrow> f64" where
  "nan_to_num NotANumber = Finite 0"
| "nan_to_num PlusInf = Finite float_max"
| "nan_to_num MinusInf = Finite (- float_max)"
| "nan_to_num (Finite x) = Finite x"
| "nan_to_num MinusZero = MinusZero"

text \<open>\<open>np.outer\<close> of two vectors of float64.\<close>

definition np_outer64 :: "f64 list \<Rightarrow> f64 list \<Rightarrow> f64 list list" where
  "np_outer64 a b = map (\<lambda>x. map (\<lambda>y. f64_mul x y) b) a"

text \<open>
  The property \<open>correlation\<close> reads the matrix \<open>self.data\<close> and nothing else of the
  covariance: the matrix is its argument \<open>d\<close>, with the float64 values as they are.
\<close>

definition correlation :: "f64 list list \<Rightarrow> f64 list list result" where
  "correlation d =
     (let err = map f64_sqrt (np_diagonal d) in
      bind_result (np_binop2 f64_div d (np_outer64 err err))
        (\<lambda>correlation. Inr (map (map nan_to_num) correlation)))"

text \<open>
  The correlation as the spec words it: every NaN and every infinity of the division
  becomes zero.
\<close>

fun nan_inf_to_zero :: "f64 \<Rightarrow> f64" where
  "nan_inf_to_zero (Finite x) = Finite x"
| "nan_inf_to_zero MinusZero = MinusZero"
| "nan_inf_to_zero _ = Finite 0"

definition correlation_zeroing :: "f64 list list \<Rightarrow> f64 list list result" where
  "correlation_zeroing d =
     (let err = map f64_sqrt (np_diagonal d) in
      bind_result (np_binop2 f64_div d (np_outer64 err err))
        (\<lambda>correlation. Inr (map (map nan_inf_to_zero) correlation)))"

section \<open>Copying a dataset\<close>

text \<open>
  \<open>Dataset.copy\<close> works on objects that refer to each other, so the objects live in a
  store: a list of cells, the address of an object being its position. A dataset holds
  its name, its models (references, or \<open>None\<close>) and its background model (a reference,
  or nothing: the attribute is absent or \<open>None\<close>); a model holds its name and a
  reference to its list \<open>datasets_names\<close> (or \<open>None\<close>); such a list is an object of its
  own, which several models may share.
\<close>

datatype cell =
    DatasetCell string "nat list option" "nat option"
  | ModelCell string "nat option"
  | NamesCell "string list"

type_synonym heap = "cell list"

text \<open>The memo of \<open>copy.deepcopy\<close>: the objects already copied and their copies.\<close>

type_synonym memo = "(nat \<times> nat) list"

text \<open>
  \<open>copy.deepcopy\<close>, by the kind of the object: an object met before is not copied
  again, any other is copied after the objects it refers to, and the copy is a new
  object at the end of the store. A reference that leads outside the store or to an
  object of another kind than the attribute expects is outside the model.
\<close>

definition copy_names :: "heap \<Rightarrow> memo \<Rightarrow> nat \<Rightarrow> (heap \<times> memo \<times> nat) result" where
  "copy_names h mm a =
     (case map_of mm a of
        Some a' \<Rightarrow> Inr (h, mm, a')
      | None \<Rightarrow>
          if a < length h then
            (case h ! a of
               NamesCell l \<Rightarrow> Inr (h @ [NamesCell l], (a, length h) # mm, length h)
             | _ \<Rightarrow> Inl (Unmodelled ''not a list of names''))
          else Inl (Unmodelled ''dangling reference''))"

definition copy_model :: "heap \<Rightarrow> memo \<Rightarrow> nat \<Rightarrow> (heap \<times> memo \<times> nat) result" where
  "copy_model h mm a =
     (case map_of mm a of
        Some a' \<Rightarrow> Inr (h, mm, a')
      | None \<Rightarrow>
          if a < length h then
            (case h ! a of
               ModelCell n None \<Rightarrow>
                 Inr (h @ [ModelCell n None], (a, length h) # mm, length h)
             | ModelCell n (Some l) \<Rightarrow>
                 bind_result (copy_names h mm l) (\<lambda>(h1, m1, l').
                   Inr (h1 @ [ModelCell n (Some l')], (a, length h1) # m1, length h1))
             | _ \<Rightarrow> Inl (Unmodelled ''not a model''))
          else Inl (Unmodelled ''dangling reference''))"

fun copy_model_list :: "heap \<Rightarrow> memo \<Rightarrow> nat list \<Rightarrow> (heap \<times> memo \<times> nat list) result" where
  "copy_model_list h mm [] = Inr (h, mm, [])"
| "copy_model_list h mm (a # as) =
     bind_result (copy_model h mm a) (\<lambda>(h1, m1, a').
     bind_result (copy_model_list h1 m1 as) (\<lambda>(h2, m2, as').
       Inr (h2, m2, a' # as')))"

definition deepcopy_dataset :: "heap \<Rightarrow> nat \<Rightarrow> (heap \<times> nat) result" where
  "deepcopy_dataset h a =
     (if a < length h then
        (case h ! a of
           DatasetCell n ms bg \<Rightarrow>
             bind_result
               (case ms of
                  None \<Rightarrow> Inr (h, [], None)
                | Some l \<Rightarrow> bind_result (copy_model_list h [] l)
                             (\<lambda>(h1, m1, l'). Inr (h1, m1, Some l')))
               (\<lambda>(h1, m1, ms').
             bind_result
               (case bg of
                  None \<Rightarrow> Inr (h1, m1, None)
                | Some b \<Rightarrow> bind_result (copy_model h1 m1 b)
                             (\<lambda>(h2, m2, b'). Inr (h2, m2, Some b')))
               (\<lambda>(h2, m2, bg').
                  Inr (h2 @ [DatasetCell n ms' bg'], length h2)))
         | _ \<Rightarrow> Inl (Unmodelled ''not a dataset''))
      else Inl (Unmodelled ''dangling reference''))"

text \<open>
  Modelled from the spec: \<open>make_name\<close> is not part of the sources at hand. The spec has
  the copy take the given name, or a freshly generated one when none is given; the
  generated name is the parameter \<open>fresh\<close>.
\<close>

definition make_name :: "string \<Rightarrow> string option \<Rightarrow> string" where
  "make_name fresh name_arg = (case name_arg of None \<Rightarrow> fresh | Some n \<Rightarrow> n)"

text \<open>\<open>new._name = name\<close>.\<close>

definition set_dataset_name :: "heap \<Rightarrow> nat \<Rightarrow> string \<Rightarrow> heap" where
  "set_dataset_name h a n =
     (if a < length h then
        (case h ! a of DatasetCell _ ms bg \<Rightarrow> h[a := DatasetCell n ms bg] | _ \<Rightarrow> h)
      else h)"

text \<open>
  One turn of the inner loop, at position \<open>k\<close> of the list \<open>l\<close>: the entry is compared
  with \<open>self.name\<close>, read from the store as it is at that moment, and replaced when
  they are equal.
\<close>

definition rename_entry :: "nat \<Rightarrow> nat \<Rightarrow> string \<Rightarrow> heap \<Rightarrow> nat \<Rightarrow> heap" where
  "rename_entry self l n h k =
     (if l < length h \<and> self < length h then
        (case (h ! l, h ! self) of
           (NamesCell ds, DatasetCell self_name _ _) \<Rightarrow>
             if k < length ds \<and> ds ! k = self_name then h[l := NamesCell (ds[k := n])] else h
         | _ \<Rightarrow> h)
      else h)"

definition rename_names :: "nat \<Rightarrow> nat \<Rightarrow> string \<Rightarrow> heap \<Rightarrow> heap" where
  "rename_names self l n h =
     (if l < length h then
        (case h ! l of
           NamesCell ds \<Rightarrow> foldl (rename_entry self l n) h [0..<length ds]
         | _ \<Rightarrow> h)
      else h)"

text \<open>
  One turn of the outer loop, for the model \<open>m\<close> of the copy \<open>new\<close>: its list of
  dataset names is rewritten, and the model is renamed when it is the background model
  of the copy.
\<close>

definition rewire_model :: "nat \<Rightarrow> nat \<Rightarrow> string \<Rightarrow> heap \<Rightarrow> nat \<Rightarrow> heap" where
  "rewire_model self new n h m =
     (if m < length h \<and> new < length h then
        (case h ! m of
           ModelCell _ (Some l) \<Rightarrow>
             (let h1 = rename_names self l n h in
              case (h1 ! new, h1 ! m) of
                (DatasetCell _ _ (Some b), ModelCell _ dn) \<Rightarrow>
                  if m = b then h1[m := ModelCell (n @ ''-bkg'') dn] else h1
              | _ \<Rightarrow> h1)
         | _ \<Rightarrow> h)
      else h)"

definition Dataset_copy :: "string \<Rightarrow> heap \<Rightarrow> nat \<Rightarrow> string option \<Rightarrow> (heap \<times> nat) result" where
  "Dataset_copy fresh h self name_arg =
     bind_result (deepcopy_dataset h self) (\<lambda>(h1, new).
       let n = make_name fresh name_arg;
           h2 = set_dataset_name h1 new n
       in case h2 ! new of
            DatasetCell _ (Some ms) _ \<Rightarrow> Inr (foldl (rewire_model self new n) h2 ms, new)
          | _ \<Rightarrow> Inr (h2, new))"

text \<open>The references held by a cell, and the invariant of the copy: the store of
  before is a prefix of the store, and the cells after it refer to cells after it.\<close>

fun cell_refs :: "cell \<Rightarrow> nat list" where
  "cell_refs (DatasetCell _ ms bg) =
     (case ms of None \<Rightarrow> [] | Some l \<Rightarrow> l) @ (case bg of None \<Rightarrow> [] | Some b \<Rightarrow> [b])"
| "cell_refs (ModelCell _ dn) = (case dn of None \<Rightarrow> [] | Some l \<Rightarrow> [l])"
| "cell_refs (NamesCell _) = []"

definition framed :: "heap \<Rightarrow> heap \<Rightarrow> bool" where
  "framed h0 h \<longleftrightarrow>
     length h0 \<le> length h \<and> take (length h0) h = h0
     \<and> (\<forall>a. length h0 \<le> a \<and> a < length h \<longrightarrow>
            (\<forall>r\<in>set (cell_refs (h ! a)). length h0 \<le> r \<and> r < length h))"

definition memo_fresh :: "heap \<Rightarrow> heap \<Rightarrow> memo \<Rightarrow> bool" where
  "memo_fresh h0 h mm \<longleftrightarrow> (\<forall>(a, a')\<in>set mm. length h0 \<le> a' \<and> a' < length h)"

section \<open>Example values\<close>

text \<open>A dataset of one bin, without masks, whose statistic is \<open>x\<close>.\<close>

definition one_bin :: "nat \<Rightarrow> string \<Rightarrow> real \<Rightarrow> dataset" where
  "one_bin i n x = \<lparr>obj_id = i, name = n, mask_safe = None, mask_fit = None,
     stat_array = \<lparr>shape = [1], flat = [Fin x]\<rparr>\<rparr>"

text \<open>A dataset of four bins of which the safe mask keeps three and the fit mask two.\<close>

definition four_bins :: dataset where
  "four_bins = \<lparr>obj_id = 7, name = ''four'',
     mask_safe = Some \<lparr>shape = [4], flat = [True, True, False, True]\<rparr>,
     mask_fit = Some \<lparr>shape = [4], flat = [True, False, True, True]\<rparr>,
     stat_array = \<lparr>shape = [4], flat = [Fin 1, Fin 2, Fin 4, Fin 8]\<rparr>\<rparr>"

text \<open>Two arrays of three bins: observed counts and model prediction.\<close>

definition counts3 :: "f64 ndarray" where
  "counts3 = \<lparr>shape = [3], flat = [Finite 5, Finite 2, Finite 1]\<rparr>"

definition model3 :: "f64 ndarray" where
  "model3 = \<lparr>shape = [3], flat = [Finite 4, Finite 1, Finite 0]\<rparr>"

text \<open>A column of two observations and a model of two numbers in a row.\<close>

definition column2 :: "f64 ndarray" where
  "column2 = \<lparr>shape = [2, 1], flat = [Finite 5, Finite 2]\<rparr>"

definition pair2 :: "f64 ndarray" where
  "pair2 = \<lparr>shape = [2], flat = [Finite 1, Finite 4]\<rparr>"

text \<open>A table that gives no character beyond Latin-1 as printable.\<close>

definition no_table :: "nat \<Rightarrow> bool" where
  "no_table c = False"

text \<open>Parameters for the examples: identity, name, error, scale, frozen or not.\<close>

definition par :: "nat \<Rightarrow> string \<Rightarrow> real \<Rightarrow> real \<Rightarrow> bool \<Rightarrow> parameter" where
  "par i n e s f = \<lparr>par_id = i, par_name = n, par_value = Fin 0, par_error = Fin e,
     par_scale = Fin s, par_frozen = f\<rparr>"

definition pP :: parameter where "pP = par 0 ''p'' 1 2 False"
definition pQ :: parameter where "pQ = par 1 ''q'' 1 3 True"
definition pR :: parameter where "pR = par 2 ''r'' 1 5 False"

text \<open>A covariance of three parameters, and one of the third and the first of them.\<close>

definition cov3 :: covariance where
  "cov3 = Covariance_init [pP, pQ, pR]
     (Some [[Fin 1, Fin (1/2), Fin (1/4)],
            [Fin (1/2), Fin 1, Fin (1/8)],
            [Fin (1/4), Fin (1/8), Fin 1]]) None"

definition sub2 :: covariance where
  "sub2 = Covariance_init [pR, pP] (Some [[Fin 4, Fin 1], [Fin 1, Fin 9]]) None"


definition red2 :: "fl list list" where
  "red2 = [[Fin 1, Fin 2], [Fin 3, Fin 4]]"

definition pT :: parameter where "pT = par 3 ''t'' 1 1 False"
definition pU :: parameter where "pU = par 4 ''u'' 1 1 False"

text \<open>Two covariances that share the parameter \<open>q\<close>; the second gives \<open>r\<close> no
  variance, although the error of \<open>r\<close> is 1.\<close>

definition sPQ :: covariance where
  "sPQ = Covariance_init [pP, pQ] (Some [[Fin 1, Fin (1/2)], [Fin (1/2), Fin 1]]) None"

definition sQR :: covariance where
  "sQR = Covariance_init [pQ, pR] (Some [[Fin 1, Fin 0], [Fin 0, Fin 0]]) None"

text \<open>A covariance of three further parameters, disjoint from those of \<open>sPQ\<close>.\<close>

definition sRTU :: covariance where
  "sRTU = Covariance_init [pR, pT, pU]
     (Some [[Fin 4, Fin 1, Fin 2], [Fin 1, Fin 9, Fin 3], [Fin 2, Fin 3, Fin 16]]) None"

text \<open>
  Matrices of float64: one with a zero variance beside a nonzero covariance, one with
  the variance 2, one with a variance of 4 and two parameters without variance, and one
  whose quotient is beyond the largest float64.
\<close>

definition zero_variance :: "f64 list list" where
  "zero_variance = [[Finite 0, Finite 1], [Finite 1, Finite 1]]"

definition variance_two :: "f64 list list" where
  "variance_two = [[Finite 2]]"

definition frozen_data :: "f64 list list" where
  "frozen_data = [[Finite 4, Finite 0, Finite 0],
                  [Finite 0, Finite 0, Finite 0],
                  [Finite 0, Finite 0, MinusZero]]"

definition huge_quotient :: "f64 list list" where
  "huge_quotient = [[Finite (2 powi (- 1000)), Finite (2 powi 1000)],
                    [Finite (2 powi 1000), Finite (2 powi (- 1000))]]"

text \<open>
  A store with a dataset \<open>d1\<close>, its background model and a source model; the two models
  share one list of dataset names.
\<close>

definition store1 :: heap where
  "store1 = [DatasetCell ''d1'' (Some [1, 2]) (Some 1),
             ModelCell ''d1-bkg'' (Some 3),
             ModelCell ''source'' (Some 3),
             NamesCell [''d1'', ''d0'']]"

section \<open>Properties of float64\<close>

lemma rne_eq:
  assumes "of_int n - 1 / 2 < y" "y < of_int n + 1 / 2"
  shows "rne y = n"
proof (cases "of_int n \<le> y")
  case True
  with assms(2) have f: "\<lfloor>y\<rfloor> = n" by linarith
  with assms(2) show ?thesis by (simp add: rne_def)
next
  case False
  with assms(1) have f: "\<lfloor>y\<rfloor> = n - 1" by linarith
  with assms(1) False show ?thesis by (simp add: rne_def Let_def)
qed

lemma rne_of_int [simp]: "rne (of_int n) = n"
  by (rule rne_eq) simp_all

lemma powr_powi: "(2::real) powr of_int e = 2 powi e"
  by (simp add: powr_real_of_int')

lemma binade_eq:
  assumes "2 powi e \<le> \<bar>x\<bar>" "\<bar>x\<bar> < 2 powi (e + 1)" "- 1022 \<le> e"
  shows "binade x = e"
proof -
  have "0 < (2::real) powi e" by simp
  with assms(1) have pos: "0 < \<bar>x\<bar>" by linarith
  have a: "(2::real) powr of_int e \<le> \<bar>x\<bar>"
    using assms(1) by (simp only: powr_powi)
  have "(2::real) powr (of_int e + 1) = 2 powr of_int (e + 1)" by simp
  also have "\<dots> = 2 powi (e + 1)" by (rule powr_powi)
  finally have b: "\<bar>x\<bar> < (2::real) powr (of_int e + 1)"
    using assms(2) by simp
  have "\<lfloor>log 2 \<bar>x\<bar>\<rfloor> = e"
    using a b floor_log_eq_powr_iff [of "\<bar>x\<bar>" 2 e] pos by simp
  with assms(3) show ?thesis by (simp add: binade_def)
qed

lemma round64_eq:
  assumes "2 powi e \<le> \<bar>x\<bar>" "\<bar>x\<bar> < 2 powi (e + 1)" "- 1022 \<le> e"
    and "of_int n - 1 / 2 < x / 2 powi (e - 52)" "x / 2 powi (e - 52) < of_int n + 1 / 2"
  shows "round64 x = of_int n * 2 powi (e - 52)"
proof -
  have "0 < (2::real) powi e" by simp
  with assms(1) have "0 < \<bar>x\<bar>" by linarith
  then have "x \<noteq> 0" by simp
  moreover have "binade x = e" by (rule binade_eq [OF assms(1,2,3)])
  moreover have "rne (x / 2 powi (e - 52)) = n" by (rule rne_eq [OF assms(4,5)])
  ultimately show ?thesis by (simp add: round64_def)
qed

lemma round64_zero [simp]: "round64 0 = 0"
  by (simp add: round64_def)

lemma round64_pow2:
  assumes "- 1022 \<le> k"
  shows "round64 (2 powi k) = 2 powi k"
proof -
  have "round64 (2 powi k) = of_int (2 ^ 52) * 2 powi (k - 52)"
  proof (rule round64_eq [OF _ _ assms])
    show "2 powi k \<le> \<bar>2 powi k :: real\<bar>" by simp
    show "\<bar>2 powi k :: real\<bar> < 2 powi (k + 1)" by (simp add: power_int_add)
    have "(2 powi k :: real) / 2 powi (k - 52) = 2 ^ 52"
      by (simp add: power_int_diff)
    then show "of_int (2 ^ 52) - 1 / 2 < (2 powi k :: real) / 2 powi (k - 52)"
      "(2 powi k :: real) / 2 powi (k - 52) < of_int (2 ^ 52) + 1 / 2"
      by simp_all
  qed
  also have "\<dots> = 2 powi k" by (simp add: power_int_diff)
  finally show ?thesis .
qed

lemma round64_one [simp]: "round64 1 = 1"
  using round64_pow2 [of 0] by simp


lemma float_max_large: "2 ^ 1023 \<le> float_max"
proof -
  have "(2::real) ^ 971 \<le> 2 ^ 1023" by (rule power_increasing) simp_all
  moreover have "(2::real) ^ 1024 = 2 * 2 ^ 1023" by simp
  ultimately show ?thesis unfolding float_max_def by linarith
qed

lemma float_max_pos: "0 < float_max"
proof -
  have "(0::real) < 2 ^ 1023" by simp
  with float_max_large show ?thesis by linarith
qed

lemma pack_zero [simp]: "pack neg 0 = signed_zero neg"
  using float_max_pos by (simp add: pack_def signed_zero_def)

lemma pack_finite:
  assumes "round64 r = q" "q \<noteq> 0" "\<bar>q\<bar> \<le> 2 ^ 1023"
  shows "pack neg r = Finite q"
  using assms float_max_large by (simp add: pack_def Let_def) linarith

lemma pack_pow2:
  assumes "- 1022 \<le> k" "k \<le> 1023"
  shows "pack neg (2 powi k) = Finite (2 powi k)"
proof (rule pack_finite)
  show "round64 (2 powi k) = 2 powi k" by (rule round64_pow2 [OF assms(1)])
  show "(2 powi k :: real) \<noteq> 0" by simp
  have "(2 powi k :: real) \<le> 2 powi 1023"
    by (rule power_int_increasing [OF assms(2)]) simp
  then show "\<bar>2 powi k :: real\<bar> \<le> 2 ^ 1023" by simp
qed

lemma pack_overflow:
  assumes "2 ^ 1024 \<le> round64 r"
  shows "pack neg r = PlusInf"
proof -
  have "float_max < 2 ^ 1024" by (simp add: float_max_def)
  with assms show ?thesis by (simp add: pack_def Let_def)
qed

lemma pack_one [simp]: "pack neg 1 = Finite 1"
  using pack_pow2 [of 0 neg] by simp

lemma sqrt2_rounded: "round64 (sqrt 2) = 6369051672525773 / 2 ^ 52"
proof -
  have lo: "1 \<le> sqrt 2" by simp
  have hi: "sqrt 2 < 2" by (rule real_less_lsqrt) simp_all
  have a: "(6369051672525773 - 1 / 2) / 2 ^ 52 < sqrt 2"
    by (rule real_less_rsqrt) (simp add: power2_eq_square)
  have b: "sqrt 2 < (6369051672525773 + 1 / 2) / 2 ^ 52"
    by (rule real_less_lsqrt) (simp_all add: power2_eq_square)
  have "round64 (sqrt 2) = of_int 6369051672525773 * 2 powi (0 - 52)"
  proof (rule round64_eq)
    show "2 powi 0 \<le> \<bar>sqrt 2\<bar>" using lo by simp
    show "\<bar>sqrt 2\<bar> < 2 powi (0 + 1)" using hi by simp
    show "- 1022 \<le> (0::int)" by simp
    show "of_int 6369051672525773 - 1 / 2 < sqrt 2 / 2 powi (0 - 52)"
      using a by (simp add: field_simps)
    show "sqrt 2 / 2 powi (0 - 52) < of_int 6369051672525773 + 1 / 2"
      using b by (simp add: field_simps)
  qed
  then show ?thesis by (simp add: field_simps)
qed


lemma sqrt2_f64: "f64_sqrt (Finite 2) = Finite (6369051672525773 / 2 ^ 52)"
proof -
  have "pack False (sqrt 2) = Finite (6369051672525773 / 2 ^ 52)"
    by (rule pack_finite [OF sqrt2_rounded]) simp_all
  then show ?thesis by simp
qed

lemma square_rounded:
  "round64 ((6369051672525773 / 2 ^ 52) * (6369051672525773 / 2 ^ 52))
   = 4503599627370497 / 2 ^ 51"
proof -
  let ?x = "(6369051672525773 / 2 ^ 52) * (6369051672525773 / 2 ^ 52) :: real"
  have "round64 ?x = of_int 4503599627370497 * 2 powi (1 - 52)"
  proof (rule round64_eq)
    show "2 powi 1 \<le> \<bar>?x\<bar>" by simp
    show "\<bar>?x\<bar> < 2 powi (1 + 1)" by simp
    show "- 1022 \<le> (1::int)" by simp
    show "of_int 4503599627370497 - 1 / 2 < ?x / 2 powi (1 - 52)" by simp
    show "?x / 2 powi (1 - 52) < of_int 4503599627370497 + 1 / 2" by simp
  qed
  then show ?thesis by simp
qed

lemma quotient_rounded:
  "round64 (2 / (4503599627370497 / 2 ^ 51)) = 9007199254740990 / 2 ^ 53"
proof -
  let ?x = "2 / (4503599627370497 / 2 ^ 51) :: real"
  have "round64 ?x = of_int 9007199254740990 * 2 powi (- 1 - 52)"
  proof (rule round64_eq)
    show "2 powi (- 1) \<le> \<bar>?x\<bar>" by simp
    show "\<bar>?x\<bar> < 2 powi (- 1 + 1)" by simp
    show "- 1022 \<le> (- 1::int)" by simp
    show "of_int 9007199254740990 - 1 / 2 < ?x / 2 powi (- 1 - 52)" by simp
    show "?x / 2 powi (- 1 - 52) < of_int 9007199254740990 + 1 / 2" by simp
  qed
  then show ?thesis by simp
qed

lemma unit_diagonal_two:
  "f64_div (Finite 2) (f64_mul (f64_sqrt (Finite 2)) (f64_sqrt (Finite 2)))
   = Finite (9007199254740990 / 2 ^ 53)"
proof -
  have m: "f64_mul (Finite (6369051672525773 / 2 ^ 52)) (Finite (6369051672525773 / 2 ^ 52))
           = Finite (4503599627370497 / 2 ^ 51)"
  proof -
    have "pack False ((6369051672525773 / 2 ^ 52) * (6369051672525773 / 2 ^ 52))
          = Finite (4503599627370497 / 2 ^ 51)"
      by (rule pack_finite [OF square_rounded]) simp_all
    then show ?thesis by (simp add: f64_mul_def)
  qed
  have d: "f64_div (Finite 2) (Finite (4503599627370497 / 2 ^ 51))
           = Finite (9007199254740990 / 2 ^ 53)"
  proof -
    have "pack False (2 / (4503599627370497 / 2 ^ 51)) = Finite (9007199254740990 / 2 ^ 53)"
      by (rule pack_finite [OF quotient_rounded]) simp_all
    then show ?thesis by (simp add: f64_div_def)
  qed
  show ?thesis by (simp only: sqrt2_f64 m d)
qed


lemma round64_dyadic:
  assumes "\<bar>m\<bar> < 2 ^ 53" "- 1074 \<le> k"
  shows "round64 (of_int m * 2 powi k) = of_int m * 2 powi k"
proof (cases "m = 0")
  case True
  then show ?thesis by simp
next
  case False
  let ?x = "of_int m * 2 powi k :: real"
  let ?e = "binade ?x"
  have x0: "?x \<noteq> 0" using False by simp
  have pos: "0 < \<bar>?x\<bar>" using x0 by simp
  have "\<bar>?x\<bar> = of_int \<bar>m\<bar> * 2 powi k" by (simp add: abs_mult)
  also have "\<dots> < 2 ^ 53 * 2 powi k"
  proof (rule mult_strict_right_mono)
    have "(of_int \<bar>m\<bar> :: real) < of_int (2 ^ 53)" using assms(1) by (simp only: of_int_less_iff)
    then show "(of_int \<bar>m\<bar> :: real) < 2 ^ 53" by simp
    show "(0::real) < 2 powi k" by simp
  qed
  also have "\<dots> = 2 powi (53 + k)" by (simp add: power_int_add)
  also have "\<dots> = 2 powr of_int (53 + k)" by (simp only: powr_powi)
  finally have "log 2 \<bar>?x\<bar> < of_int (53 + k)"
    using pos by (simp add: log_less_iff del: of_int_add)
  then have "\<lfloor>log 2 \<bar>?x\<bar>\<rfloor> < 53 + k" by (simp only: floor_less_iff)
  then have le: "?e - 52 \<le> k" using assms(2) by (simp add: binade_def)
  define j where "j = nat (k - (?e - 52))"
  have k: "k = (?e - 52) + int j" using le by (simp add: j_def)
  have p: "(2::real) powi k = 2 powi (?e - 52) * 2 ^ j"
    by (subst k) (simp add: power_int_add)
  have gen: "y * b / a = y * c" if "a \<noteq> 0" "b = a * c" for y a b c :: real
    using that by simp
  have "?x / 2 powi (?e - 52) = of_int m * 2 ^ j"
    by (rule gen [OF _ p]) simp
  then have q: "?x / 2 powi (?e - 52) = of_int (m * 2 ^ j)" by simp
  have "round64 ?x = of_int (rne (?x / 2 powi (?e - 52))) * 2 powi (?e - 52)"
    using x0 by (simp only: round64_def if_False)
  also have "\<dots> = of_int (m * 2 ^ j) * 2 powi (?e - 52)"
    by (simp only: q rne_of_int)
  also have "\<dots> = ?x / 2 powi (?e - 52) * 2 powi (?e - 52)" by (simp only: q)
  also have "\<dots> = ?x" by simp
  finally show ?thesis .
qed

lemma round64_int:
  assumes "\<bar>m\<bar> < 2 ^ 53"
  shows "round64 (of_int m) = of_int m"
  using round64_dyadic [OF assms, of 0] by simp

lemma pack_int:
  assumes "\<bar>m\<bar> < 2 ^ 53" "m \<noteq> 0"
  shows "pack neg (of_int m) = Finite (of_int m)"
proof (rule pack_finite [OF round64_int [OF assms(1)]])
  show "(of_int m :: real) \<noteq> 0" using assms(2) by simp
  have "(of_int \<bar>m\<bar> :: real) \<le> of_int (2 ^ 53)" using assms(1) by (simp only: of_int_le_iff)
  also have "\<dots> \<le> 2 ^ 1023" by simp
  finally show "\<bar>of_int m :: real\<bar> \<le> 2 ^ 1023" by simp
qed

lemma pack_two [simp]: "pack neg 2 = Finite 2"
  using pack_int [of 2 neg] by simp

lemma pack_half [simp]: "pack neg (1 / 2) = Finite (1 / 2)"
  using pack_pow2 [of "- 1" neg] by simp

lemma pack_quarter [simp]: "pack neg (1 / 4) = Finite (1 / 4)"
  using pack_pow2 [of "- 2" neg] by simp


lemma pack_dyadic:
  assumes "\<bar>m\<bar> < 2 ^ 53" "m \<noteq> 0" "- 1074 \<le> k" "k \<le> 970"
  shows "pack neg (of_int m * 2 powi k) = Finite (of_int m * 2 powi k)"
proof (rule pack_finite [OF round64_dyadic [OF assms(1,3)]])
  show "of_int m * 2 powi k \<noteq> (0::real)" using assms(2) by simp
  have "\<bar>of_int m * 2 powi k :: real\<bar> = of_int \<bar>m\<bar> * 2 powi k" by (simp add: abs_mult)
  also have "\<dots> \<le> 2 ^ 53 * 2 powi 970"
  proof (rule mult_mono)
    have "(of_int \<bar>m\<bar> :: real) \<le> of_int (2 ^ 53)" using assms(1) by (simp only: of_int_le_iff)
    then show "(of_int \<bar>m\<bar> :: real) \<le> 2 ^ 53" by simp
    show "(2::real) powi k \<le> 2 powi 970" by (rule power_int_increasing [OF assms(4)]) simp
  qed simp_all
  also have "\<dots> = 2 ^ 1023" by (simp add: power_int_def flip: power_add)
  finally show "\<bar>of_int m * 2 powi k :: real\<bar> \<le> 2 ^ 1023" .
qed

lemma pack_numerals [simp]:
  "pack neg 4 = Finite 4" "pack neg (- 1) = Finite (- 1)" "pack neg (- 2) = Finite (- 2)"
  "pack neg (- (1 / 2)) = Finite (- (1 / 2))"
  using pack_int [of 4 neg] pack_int [of "- 1" neg] pack_int [of "- 2" neg]
    pack_dyadic [of "- 1" "- 1" neg]
  by simp_all

lemmas f64_defs = f64_sub_def f64_add_def f64_mul_def f64_div_def signed_inf_def signed_zero_def

lemma sqrt_pow2: "sqrt (2 powi (2 * k)) = 2 powi k"
proof (rule real_sqrt_unique)
  show "(2 powi k :: real)\<^sup>2 = 2 powi (2 * k)"
    by (simp add: power2_eq_square flip: power_int_add)
  show "0 \<le> (2 powi k :: real)" by simp
qed

lemma sqrt_pow2_f64:
  assumes "e = 2 * k" "- 1022 \<le> k" "k \<le> 1023"
  shows "f64_sqrt (Finite (2 powi e)) = Finite (2 powi k)"
proof -
  have "sqrt (2 powi e) = 2 powi k"
    unfolding assms(1) by (rule sqrt_pow2)
  moreover have "\<not> (2 powi e :: real) < 0"
    by (simp add: not_less)
  ultimately show ?thesis
    by (simp add: pack_pow2 [OF assms(2,3)])
qed

lemma mul_pow2_f64:
  assumes "e = j + k" "- 1022 \<le> e" "e \<le> 1023"
  shows "f64_mul (Finite (2 powi j)) (Finite (2 powi k)) = Finite (2 powi e)"
proof -
  have "(2 powi j :: real) * 2 powi k = 2 powi e"
    unfolding assms(1) by (simp add: power_int_add)
  moreover have "\<not> (2 powi j :: real) < 0" "\<not> (2 powi k :: real) < 0"
    by (simp_all add: not_less)
  ultimately show ?thesis
    by (simp add: f64_mul_def pack_pow2 [OF assms(2,3)])
qed

lemma div_pow2_f64:
  assumes "e = j - k" "- 1022 \<le> e" "e \<le> 1023"
  shows "f64_div (Finite (2 powi j)) (Finite (2 powi k)) = Finite (2 powi e)"
proof -
  have "(2 powi j :: real) / 2 powi k = 2 powi e"
    unfolding assms(1) by (simp add: power_int_diff)
  moreover have "\<not> (2 powi j :: real) < 0" "\<not> (2 powi k :: real) < 0"
    by (simp_all add: not_less)
  ultimately show ?thesis
    by (simp add: f64_div_def pack_pow2 [OF assms(2,3)])
qed

lemma div_pow2_overflow:
  assumes "e = j - k" "1024 \<le> e"
  shows "f64_div (Finite (2 powi j)) (Finite (2 powi k)) = PlusInf"
proof -
  have q: "(2 powi j :: real) / 2 powi k = 2 powi e"
    unfolding assms(1) by (simp add: power_int_diff)
  have r: "round64 (2 powi e) = 2 powi e"
    by (rule round64_pow2) (use assms(2) in simp)
  have "(2::real) powi 1024 \<le> 2 powi e"
    by (rule power_int_increasing [OF assms(2)]) simp
  then have "(2::real) ^ 1024 \<le> round64 (2 powi e)"
    unfolding r by simp
  then have "pack False (2 powi e) = PlusInf"
    by (rule pack_overflow)
  moreover have "\<not> (2 powi j :: real) < 0" "\<not> (2 powi k :: real) < 0"
    by (simp_all add: not_less)
  ultimately show ?thesis
    using q by (simp add: f64_div_def)
qed

section \<open>Properties of the datasets\<close>

subsection \<open>Joint statistic\<close>

lemma stat_sum_loop_foldl:
  assumes "\<forall>d\<in>set ds. \<exists>s. Dataset_stat_sum d = Inr s"
  shows "stat_sum_loop acc ds =
         Inr (foldl fl_add acc (map (\<lambda>d. projr (Dataset_stat_sum d)) ds))"
  using assms
proof (induction ds arbitrary: acc)
  case Nil
  show ?case by simp
next
  case (Cons d ds)
  from Cons.prems obtain s where s: "Dataset_stat_sum d = Inr s" by auto
  from Cons.prems have rest: "\<forall>d\<in>set ds. \<exists>s. Dataset_stat_sum d = Inr s" by simp
  show ?case using s Cons.IH [OF rest, of "fl_add acc s"] by simp
qed

lemma one_bin_stat_sum: "Dataset_stat_sum (one_bin i n x) = Inr (Fin x)"
  by (simp add: Dataset_stat_sum_def one_bin_def mask_def bind_result_def np_sum_def)

text \<open>
  Claim C1. When the statistic of every member can be computed, \<open>Datasets.stat_sum\<close>
  returns the members' statistics added one after the other, in the order of the
  collection, starting from zero.
\<close>

theorem Datasets_stat_sum_serial:
  assumes "\<forall>d\<in>set (datasets D). \<exists>s. Dataset_stat_sum d = Inr s"
  shows "Datasets_stat_sum D =
         Inr (foldl fl_add (Fin 0) (map (\<lambda>d. projr (Dataset_stat_sum d)) (datasets D)))"
  unfolding Datasets_stat_sum_def by (rule stat_sum_loop_foldl [OF assms])

text \<open>Three datasets of one bin with statistics 1, 2.5 and 0.75 sum to 4.25.\<close>

theorem Datasets_stat_sum_serial_witness:
  "Datasets_stat_sum
     \<lparr>datasets = [one_bin 0 ''a'' 1, one_bin 1 ''b'' (5/2), one_bin 2 ''c'' (3/4)]\<rparr>
   = Inr (Fin (17/4))"
  using Datasets_stat_sum_serial
    [of "\<lparr>datasets = [one_bin 0 ''a'' 1, one_bin 1 ''b'' (5/2), one_bin 2 ''c'' (3/4)]\<rparr>"]
  by (simp add: one_bin_stat_sum)

text \<open>
  Claim C10. A collection built from no argument has no member, and its joint statistic
  is zero.
\<close>

theorem empty_Datasets:
  "Datasets_init ArgNone = Inr \<lparr>datasets = []\<rparr>
   \<and> len \<lparr>datasets = []\<rparr> = 0
   \<and> Datasets_stat_sum \<lparr>datasets = []\<rparr> = Inr (Fin 0)"
  by (simp add: Datasets_init_def bind_result_def len_def Datasets_stat_sum_def)

subsection \<open>Statistic of one dataset\<close>

lemma select_nths:
  "length m = length a \<Longrightarrow>
   map snd (filter fst (zip m a)) = nths a {i. i < length m \<and> m ! i}"
proof (induction m a rule: list_induct2)
  case Nil
  show ?case by simp
next
  case (Cons b m x a)
  have "{j. Suc j \<in> {i. i < length (b # m) \<and> (b # m) ! i}} = {i. i < length m \<and> m ! i}"
    by auto
  with Cons.IH show ?case by (simp add: nths_Cons)
qed

text \<open>
  Claim C6. With a mask (of the shape of the statistic array), \<open>Dataset.stat_sum\<close> is
  the sum of the entries of the statistic array at the positions where the mask is
  true; without a mask it is the sum of all the entries.
\<close>

theorem Dataset_stat_sum_masked:
  "(mask d = Inr (Some m) \<and> shape m = shape (stat_array d)
      \<and> length (flat m) = length (flat (stat_array d))
    \<longrightarrow> Dataset_stat_sum d =
          Inr (np_sum (nths (flat (stat_array d)) {i. i < length (flat m) \<and> flat m ! i})))
   \<and> (mask d = Inr None \<longrightarrow> Dataset_stat_sum d = Inr (np_sum (flat (stat_array d))))"
  by (simp add: Dataset_stat_sum_def bind_result_def bool_index_def select_nths Let_def)

lemma four_bins_mask:
  "mask four_bins = Inr (Some \<lparr>shape = [4], flat = [True, False, False, True]\<rparr>)"
  by (simp add: mask_def four_bins_def mask_and_def bind_result_def)

lemma four_bins_selected:
  "nths (flat (stat_array four_bins))
     {i. i < length (flat \<lparr>shape = [4], flat = [True, False, False, True]\<rparr>)
         \<and> flat \<lparr>shape = [4], flat = [True, False, False, True]\<rparr> ! i}
   = [Fin 1, Fin 8]"
proof -
  have "{i. i < length (flat \<lparr>shape = [4::nat], flat = [True, False, False, True]\<rparr>)
         \<and> flat \<lparr>shape = [4::nat], flat = [True, False, False, True]\<rparr> ! i} = {0, 3::nat}"
    by (auto simp: nth_Cons' less_Suc_eq)
  then show ?thesis by (simp add: four_bins_def nths_Cons)
qed

theorem Dataset_stat_sum_masked_witness:
  "Dataset_stat_sum four_bins = Inr (Fin 9)
   \<and> Dataset_stat_sum (one_bin 0 ''a'' 3) = Inr (Fin 3)"
proof -
  let ?M = "\<lparr>shape = [4], flat = [True, False, False, True]\<rparr>"
  have pre: "mask four_bins = Inr (Some ?M) \<and> shape ?M = shape (stat_array four_bins)
             \<and> length (flat ?M) = length (flat (stat_array four_bins))"
    using four_bins_mask by (simp add: four_bins_def)
  have n: "mask (one_bin 0 ''a'' 3) = Inr None"
    by (simp add: mask_def one_bin_def)
  from Dataset_stat_sum_masked [of four_bins ?M] pre
  have "Dataset_stat_sum four_bins =
          Inr (np_sum (nths (flat (stat_array four_bins))
                 {i. i < length (flat ?M) \<and> flat ?M ! i}))"
    by blast
  then have "Dataset_stat_sum four_bins = Inr (np_sum [Fin 1, Fin 8])"
    by (simp only: four_bins_selected)
  then have a: "Dataset_stat_sum four_bins = Inr (Fin 9)"
    by (simp add: np_sum_def)
  have b: "Dataset_stat_sum (one_bin 0 ''a'' 3) = Inr (Fin 3)"
    using Dataset_stat_sum_masked [of "one_bin 0 ''a'' 3"] n
    by (simp add: one_bin_def np_sum_def)
  from a b show ?thesis by simp
qed

subsection \<open>Unique names\<close>

lemma check_unique_iff:
  "check_unique acc ds =
     (if distinct (map name ds) \<and> set acc \<inter> name ` set ds = {}
      then Inr () else Inl (ValueError ''Dataset names must be unique''))"
  by (induction ds arbitrary: acc) auto

lemma Datasets_init_list:
  "Datasets_init (ArgList ds) =
     (if distinct (map name ds) then Inr \<lparr>datasets = ds\<rparr>
      else Inl (ValueError ''Dataset names must be unique''))"
  by (simp add: Datasets_init_def bind_result_def check_unique_iff)

text \<open>
  Claim C2. A dataset whose name is already the name of a member is refused with the
  value error of the source by \<open>insert\<close> and by \<open>__setitem__\<close>, whatever the index or
  key, and the collection after the call is the collection before it; the constructor
  refuses the list of the members with that dataset put in at any place.
\<close>

theorem duplicate_name_rejected:
  assumes "name d \<in> set (names D)"
  shows "Datasets_insert D idx (IsDataset d) =
           (Some (ValueError ''Dataset names must be unique''), D)
       \<and> Datasets_setitem D k (IsDataset d) =
           (Some (ValueError ''Dataset names must be unique''), D)
       \<and> Datasets_init (ArgList (list_insert (datasets D) idx d)) =
           Inl (ValueError ''Dataset names must be unique'')"
proof -
  have a: "Datasets_insert D idx (IsDataset d) =
           (Some (ValueError ''Dataset names must be unique''), D)"
    using assms by (simp add: Datasets_insert_def)
  have b: "Datasets_setitem D k (IsDataset d) =
           (Some (ValueError ''Dataset names must be unique''), D)"
    using assms by (simp add: Datasets_setitem_def)
  let ?j = "nat (let n = int (length (datasets D));
                     j = (if idx < 0 then max 0 (idx + n) else min idx n) in j)"
  have "name d \<in> name ` set (datasets D)"
    using assms by (simp add: names_def)
  also have "set (datasets D) = set (take ?j (datasets D)) \<union> set (drop ?j (datasets D))"
    by (metis append_take_drop_id set_append)
  finally have "\<not> distinct (map name (take ?j (datasets D) @ d # drop ?j (datasets D)))"
    by auto
  then have c: "Datasets_init (ArgList (list_insert (datasets D) idx d)) =
           Inl (ValueError ''Dataset names must be unique'')"
    by (simp add: Datasets_init_list list_insert_def Let_def)
  from a b c show ?thesis by simp
qed

theorem duplicate_name_rejected_witness:
  "Datasets_insert \<lparr>datasets = [one_bin 0 ''a'' 1, one_bin 1 ''b'' 2]\<rparr> 1
       (IsDataset (one_bin 2 ''b'' 3)) =
     (Some (ValueError ''Dataset names must be unique''),
      \<lparr>datasets = [one_bin 0 ''a'' 1, one_bin 1 ''b'' 2]\<rparr>)
   \<and> Datasets_setitem \<lparr>datasets = [one_bin 0 ''a'' 1, one_bin 1 ''b'' 2]\<rparr> (KInt 0)
       (IsDataset (one_bin 2 ''b'' 3)) =
     (Some (ValueError ''Dataset names must be unique''),
      \<lparr>datasets = [one_bin 0 ''a'' 1, one_bin 1 ''b'' 2]\<rparr>)
   \<and> Datasets_init (ArgList [one_bin 0 ''a'' 1, one_bin 2 ''b'' 3, one_bin 1 ''b'' 2]) =
     Inl (ValueError ''Dataset names must be unique'')"
proof -
  have n: "name (one_bin 2 ''b'' 3)
           \<in> set (names \<lparr>datasets = [one_bin 0 ''a'' 1, one_bin 1 ''b'' 2]\<rparr>)"
    by (simp add: names_def one_bin_def)
  have l: "list_insert [one_bin 0 ''a'' 1, one_bin 1 ''b'' 2] 1 (one_bin 2 ''b'' 3)
           = [one_bin 0 ''a'' 1, one_bin 2 ''b'' 3, one_bin 1 ''b'' 2]"
    by (simp add: list_insert_def)
  show ?thesis
    using duplicate_name_rejected [OF n, of 1 "KInt 0"] l by simp
qed

subsection \<open>Residuals\<close>

lemma broadcast_rev_same: "broadcast_rev xs xs = Some xs"
  by (induction xs) simp_all

lemma broadcast_shapes_same: "broadcast_shapes s s = Some s"
  by (simp add: broadcast_shapes_def broadcast_rev_same)

lemma broadcast_rev_again:
  "broadcast_rev xs ys = Some zs \<Longrightarrow> broadcast_rev zs ys = Some zs"
proof (induction xs ys arbitrary: zs rule: broadcast_rev.induct)
  case (1 ys)
  then show ?case by (simp add: broadcast_rev_same)
next
  case (2 x xs)
  then have "zs = x # xs" by simp
  then show ?case by simp
next
  case (3 x xs y ys)
  show ?case
  proof (cases "x = y \<or> y = 1")
    case True
    with 3(3) obtain zs' where z: "broadcast_rev xs ys = Some zs'" "zs = x # zs'"
      by auto
    from 3(1) [OF True z(1)] True z(2) show ?thesis by simp
  next
    case False
    with 3(3) have x: "x = 1" by (simp split: if_splits)
    with False 3(3) obtain zs' where z: "broadcast_rev xs ys = Some zs'" "zs = y # zs'"
      by auto
    from 3(2) [OF False x z(1)] z(2) show ?thesis by simp
  qed
qed

lemma broadcast_shapes_again:
  "broadcast_shapes s t = Some u \<Longrightarrow> broadcast_shapes u t = Some u"
  by (auto simp: broadcast_shapes_def dest: broadcast_rev_again)

lemma mixed_radix_bound:
  fixes a y r p :: nat
  assumes "a < y" "r < p"
  shows "a + y * r < y * p"
proof -
  have "a + y * r < y + y * r" using assms(1) by simp
  also have "\<dots> = y * Suc r" by simp
  also have "\<dots> \<le> y * p" using assms(2) by (intro mult_le_mono2) simp
  finally show ?thesis .
qed

lemma source_rev_same: "k < prod_list xs \<Longrightarrow> source_rev xs xs k = k"
proof (induction xs arbitrary: k)
  case Nil
  then show ?case by simp
next
  case (Cons x xs)
  have x: "0 < x"
    using Cons.prems by (cases "x = 0") simp_all
  have "k div x < prod_list xs"
    using Cons.prems x by (simp add: less_mult_imp_div_less mult.commute)
  then have "source_rev xs xs (k div x) = k div x"
    by (rule Cons.IH)
  then show ?case
    by simp
qed

lemma source_index_same: "k < prod_list s \<Longrightarrow> source_index s s k = k"
  by (simp add: source_index_def source_rev_same)

lemma source_rev_bound:
  "broadcast_rev xs ys = Some zs \<Longrightarrow> k < prod_list zs \<Longrightarrow>
     source_rev xs zs k < prod_list xs \<and> source_rev ys zs k < prod_list ys"
proof (induction xs ys arbitrary: zs k rule: broadcast_rev.induct)
  case (1 ys)
  then show ?case by (cases ys) (simp_all add: source_rev_same)
next
  case (2 x xs)
  then have "zs = x # xs" "k < prod_list (x # xs)" by simp_all
  then show ?case using source_rev_same [of k "x # xs"] by simp
next
  case (3 x xs y ys)
  from 3(3) obtain d zs' where z: "broadcast_rev xs ys = Some zs'" "zs = d # zs'"
    and d: "x = y \<and> d = x \<or> y = 1 \<and> d = x \<or> x = 1 \<and> d = y"
    by (auto split: if_splits)
  have k: "k < d * prod_list zs'" using 3(4) z(2) by simp
  then have d0: "0 < d" by (cases "d = 0") simp_all
  have kd: "k div d < prod_list zs'"
    using k d0 by (simp add: less_mult_imp_div_less mult.commute)
  have ih: "source_rev xs zs' (k div d) < prod_list xs \<and> source_rev ys zs' (k div d) < prod_list ys"
  proof (cases "x = y \<or> y = 1")
    case True
    from 3(1) [OF True z(1) kd] show ?thesis .
  next
    case False
    with d have "x = 1" by auto
    from 3(2) [OF False this z(1) kd] show ?thesis .
  qed
  have a: "(if x = 1 then 0 else k mod d) + x * source_rev xs zs' (k div d) < x * prod_list xs"
  proof (cases "x = 1")
    case True
    with ih show ?thesis by simp
  next
    case False
    with d have "d = x" by auto
    with d0 have "k mod d < x" by simp
    with False show ?thesis using ih by (simp add: mixed_radix_bound)
  qed
  have b: "(if y = 1 then 0 else k mod d) + y * source_rev ys zs' (k div d) < y * prod_list ys"
  proof (cases "y = 1")
    case True
    with ih show ?thesis by simp
  next
    case False
    with d have "d = y" by auto
    with d0 have "k mod d < y" by simp
    with False show ?thesis using ih by (simp add: mixed_radix_bound)
  qed
  from a b z(2) show ?case by simp
qed

lemma source_index_bound:
  assumes "broadcast_shapes s t = Some u" "k < prod_list u"
  shows "source_index t u k < prod_list t"
proof -
  from assms(1) obtain zs where z: "broadcast_rev (rev s) (rev t) = Some zs" "u = rev zs"
    by (auto simp: broadcast_shapes_def)
  have "k < prod_list zs" using assms(2) z(2) by (simp add: prod_list.rev)
  from source_rev_bound [OF z(1) this] z(2) show ?thesis
    by (simp add: source_index_def prod_list.rev)
qed


lemma np_binop_Some:
  "broadcast_shapes (shape a) (shape b) = Some s \<Longrightarrow>
   np_binop f a b =
     Inr \<lparr>shape = s,
          flat = map (\<lambda>k. f (flat a ! source_index (shape a) s k)
                             (flat b ! source_index (shape b) s k)) [0..<prod_list s]\<rparr>"
  by (simp add: np_binop_def)

lemma np_binop_None:
  "broadcast_shapes (shape a) (shape b) = None \<Longrightarrow>
   np_binop f a b = Inl (ValueError ''operands could not be broadcast together'')"
  by (simp add: np_binop_def)

lemma np_binop_after:
  assumes "broadcast_shapes t (shape c) = Some s"
  shows "np_binop g \<lparr>shape = s, flat = map h [0..<prod_list s]\<rparr> c =
           Inr \<lparr>shape = s,
                flat = map (\<lambda>k. g (h k) (flat c ! source_index (shape c) s k))
                           [0..<prod_list s]\<rparr>"
proof -
  have "broadcast_shapes s (shape c) = Some s"
    by (rule broadcast_shapes_again [OF assms])
  then show ?thesis
    by (simp add: np_binop_def source_index_same)
qed

lemma np_binop_same_shape:
  assumes "is_array a" "is_array b" "shape a = shape b"
  shows "np_binop f a b =
           Inr \<lparr>shape = shape a,
                flat = map (\<lambda>i. f (flat a ! i) (flat b ! i)) [0..<length (flat a)]\<rparr>"
  using assms by (simp add: np_binop_def broadcast_shapes_same is_array_def source_index_same)

lemma residuals_diff:
  "broadcast_shapes (shape obs) (shape pred) = Some s \<Longrightarrow>
   compute_residuals ops table obs pred (ascii ''diff'') =
     Inr \<lparr>shape = s,
          flat = map (\<lambda>k. sub_op ops (flat obs ! source_index (shape obs) s k)
                                      (flat pred ! source_index (shape pred) s k))
                     [0..<prod_list s]\<rparr>"
  by (simp add: compute_residuals_def np_binop_Some)

lemma residuals_diff_model:
  assumes "broadcast_shapes (shape obs) (shape pred) = Some s"
  shows "compute_residuals ops table obs pred (ascii ''diff/model'') =
     Inr \<lparr>shape = s,
          flat = map (\<lambda>k. div_op ops
                            (sub_op ops (flat obs ! source_index (shape obs) s k)
                                        (flat pred ! source_index (shape pred) s k))
                            (flat pred ! source_index (shape pred) s k))
                     [0..<prod_list s]\<rparr>"
proof -
  have "ascii ''diff/model'' \<noteq> ascii ''diff''" by (simp add: ascii_def)
  then show ?thesis
    by (simp add: compute_residuals_def np_binop_Some [OF assms] np_binop_after [OF assms]
        bind_result_def)
qed

lemma residuals_diff_sqrt_model:
  assumes "broadcast_shapes (shape obs) (shape pred) = Some s" "is_array pred"
  shows "compute_residuals ops table obs pred (ascii ''diff/sqrt(model)'') =
     Inr \<lparr>shape = s,
          flat = map (\<lambda>k. div_op ops
                            (sub_op ops (flat obs ! source_index (shape obs) s k)
                                        (flat pred ! source_index (shape pred) s k))
                            (sqrt_op ops (flat pred ! source_index (shape pred) s k)))
                     [0..<prod_list s]\<rparr>"
proof -
  have m: "ascii ''diff/sqrt(model)'' \<noteq> ascii ''diff''"
    "ascii ''diff/sqrt(model)'' \<noteq> ascii ''diff/model''" by (simp_all add: ascii_def)
  have b: "broadcast_shapes (shape obs) (shape (np_unop (sqrt_op ops) pred)) = Some s"
    using assms(1) by (simp add: np_unop_def)
  have "flat (np_unop (sqrt_op ops) pred) ! source_index (shape pred) s k
        = sqrt_op ops (flat pred ! source_index (shape pred) s k)" if "k < prod_list s" for k
  proof -
    have "source_index (shape pred) s k < length (flat pred)"
      using source_index_bound [OF assms(1) that] assms(2) by (simp add: is_array_def)
    then show ?thesis by (simp add: np_unop_def)
  qed
  then have "map (\<lambda>k. div_op ops
                 (sub_op ops (flat obs ! source_index (shape obs) s k)
                             (flat pred ! source_index (shape pred) s k))
                 (flat (np_unop (sqrt_op ops) pred) ! source_index (shape pred) s k))
               [0..<prod_list s]
           = map (\<lambda>k. div_op ops
                 (sub_op ops (flat obs ! source_index (shape obs) s k)
                             (flat pred ! source_index (shape pred) s k))
                 (sqrt_op ops (flat pred ! source_index (shape pred) s k)))
               [0..<prod_list s]"
    by simp
  moreover have "shape (np_unop (sqrt_op ops) pred) = shape pred" by (simp add: np_unop_def)
  ultimately show ?thesis
    using m np_binop_after [OF b, of "div_op ops"]
    by (simp add: compute_residuals_def np_binop_Some [OF assms(1)] bind_result_def)
qed

lemma residuals_not_broadcast:
  assumes "broadcast_shapes (shape obs) (shape pred) = None"
    and "method \<in> {ascii ''diff'', ascii ''diff/model'', ascii ''diff/sqrt(model)''}"
  shows "compute_residuals ops table obs pred method =
           Inl (ValueError ''operands could not be broadcast together'')"
  using assms(2)
  by (auto simp: compute_residuals_def np_binop_None [OF assms(1)] bind_result_def)

lemma residuals_invalid:
  assumes "method \<notin> {ascii ''diff'', ascii ''diff/model'', ascii ''diff/sqrt(model)''}"
  shows "compute_residuals ops table obs pred method =
           Inl (AttributeError (ascii ''Invalid method: '' @ py_repr table method @
                  ascii ''. Choose between '' @ [39] @ ascii ''diff'' @ [39] @
                  ascii '', '' @ [39] @ ascii ''diff/model'' @ [39] @
                  ascii '' and '' @ [39] @ ascii ''diff/sqrt(model)'' @ [39]))"
  using assms
  by (simp add: compute_residuals_def invalid_method_message_def squote_def)

lemma escape_plain:
  assumes "32 \<le> c" "c < 127" "c \<noteq> 39" "c \<noteq> 92"
  shows "escape_char table 39 c = [c]"
  using assms by (simp add: escape_char_def isprintable_def backslash_def)

lemma repr_plain:
  assumes "\<forall>c\<in>set s. 32 \<le> c \<and> c < 127 \<and> c \<noteq> 39 \<and> c \<noteq> 92"
  shows "py_repr table s = [39] @ s @ [39]"
proof -
  have "39 \<notin> set s" using assms by auto
  moreover have "concat (map (escape_char table 39) s) = s"
    using assms by (induction s) (simp_all add: escape_plain)
  ultimately show ?thesis by (simp add: py_repr_def squote_def)
qed


lemma residuals_same_shape:
  assumes "is_array obs" "is_array pred" "shape obs = shape pred"
  shows "compute_residuals ops table obs pred (ascii ''diff'') =
           Inr \<lparr>shape = shape obs,
                flat = map (\<lambda>i. sub_op ops (flat obs ! i) (flat pred ! i))
                           [0..<length (flat obs)]\<rparr>"
    and "compute_residuals ops table obs pred (ascii ''diff/model'') =
           Inr \<lparr>shape = shape obs,
                flat = map (\<lambda>i. div_op ops (sub_op ops (flat obs ! i) (flat pred ! i))
                                            (flat pred ! i))
                           [0..<length (flat obs)]\<rparr>"
    and "compute_residuals ops table obs pred (ascii ''diff/sqrt(model)'') =
           Inr \<lparr>shape = shape obs,
                flat = map (\<lambda>i. div_op ops (sub_op ops (flat obs ! i) (flat pred ! i))
                                            (sqrt_op ops (flat pred ! i)))
                           [0..<length (flat obs)]\<rparr>"
proof -
  have b: "broadcast_shapes (shape obs) (shape pred) = Some (shape obs)"
    using assms(3) by (simp add: broadcast_shapes_same)
  have n: "length (flat obs) = prod_list (shape obs)"
    using assms(1) by (simp add: is_array_def)
  show "compute_residuals ops table obs pred (ascii ''diff'') =
           Inr \<lparr>shape = shape obs,
                flat = map (\<lambda>i. sub_op ops (flat obs ! i) (flat pred ! i))
                           [0..<length (flat obs)]\<rparr>"
    using residuals_diff [OF b, of ops table] assms(3)
    by (simp add: n source_index_same)
  show "compute_residuals ops table obs pred (ascii ''diff/model'') =
           Inr \<lparr>shape = shape obs,
                flat = map (\<lambda>i. div_op ops (sub_op ops (flat obs ! i) (flat pred ! i))
                                            (flat pred ! i))
                           [0..<length (flat obs)]\<rparr>"
    using residuals_diff_model [OF b, of ops table] assms(3)
    by (simp add: n source_index_same)
  show "compute_residuals ops table obs pred (ascii ''diff/sqrt(model)'') =
           Inr \<lparr>shape = shape obs,
                flat = map (\<lambda>i. div_op ops (sub_op ops (flat obs ! i) (flat pred ! i))
                                            (sqrt_op ops (flat pred ! i)))
                           [0..<length (flat obs)]\<rparr>"
    using residuals_diff_sqrt_model [OF b assms(2), of ops table] assms(3)
    by (simp add: n source_index_same)
qed

text \<open>
  Claim C7. A method other than \<open>diff\<close>, \<open>diff/model\<close> and \<open>diff/sqrt(model)\<close> raises
  AttributeError, and the message is \<open>Invalid method:\<close>, the \<open>repr\<close> of the method, and the
  three methods (for a method of plain characters the \<open>repr\<close> is the method between single
  quotes). For arrays of one shape the three methods return, at every position, the
  difference, the difference over the model and the difference over the square root of
  the model. For shapes that broadcast to \<open>s\<close> they return the array of shape \<open>s\<close> of these
  values at the positions that broadcasting pairs, and for shapes that do not broadcast
  the ValueError of NumPy.
\<close>

theorem compute_residuals_methods:
  "(method \<notin> {ascii ''diff'', ascii ''diff/model'', ascii ''diff/sqrt(model)''} \<longrightarrow>
      compute_residuals ops table obs pred method =
        Inl (AttributeError (ascii ''Invalid method: '' @ py_repr table method @
               ascii ''. Choose between '' @ [39] @ ascii ''diff'' @ [39] @
               ascii '', '' @ [39] @ ascii ''diff/model'' @ [39] @
               ascii '' and '' @ [39] @ ascii ''diff/sqrt(model)'' @ [39]))) \<and>
   ((\<forall>c\<in>set method. 32 \<le> c \<and> c < 127 \<and> c \<noteq> 39 \<and> c \<noteq> 92) \<longrightarrow>
      py_repr table method = [39] @ method @ [39]) \<and>
   (is_array obs \<and> is_array pred \<and> shape obs = shape pred \<longrightarrow>
      compute_residuals ops table obs pred (ascii ''diff'') =
        Inr \<lparr>shape = shape obs,
             flat = map (\<lambda>i. sub_op ops (flat obs ! i) (flat pred ! i))
                        [0..<length (flat obs)]\<rparr> \<and>
      compute_residuals ops table obs pred (ascii ''diff/model'') =
        Inr \<lparr>shape = shape obs,
             flat = map (\<lambda>i. div_op ops (sub_op ops (flat obs ! i) (flat pred ! i))
                                         (flat pred ! i))
                        [0..<length (flat obs)]\<rparr> \<and>
      compute_residuals ops table obs pred (ascii ''diff/sqrt(model)'') =
        Inr \<lparr>shape = shape obs,
             flat = map (\<lambda>i. div_op ops (sub_op ops (flat obs ! i) (flat pred ! i))
                                         (sqrt_op ops (flat pred ! i)))
                        [0..<length (flat obs)]\<rparr>) \<and>
   (is_array pred \<and> broadcast_shapes (shape obs) (shape pred) = Some s \<longrightarrow>
      compute_residuals ops table obs pred (ascii ''diff'') =
        Inr \<lparr>shape = s,
             flat = map (\<lambda>k. sub_op ops (flat obs ! source_index (shape obs) s k)
                                         (flat pred ! source_index (shape pred) s k))
                        [0..<prod_list s]\<rparr> \<and>
      compute_residuals ops table obs pred (ascii ''diff/model'') =
        Inr \<lparr>shape = s,
             flat = map (\<lambda>k. div_op ops
                               (sub_op ops (flat obs ! source_index (shape obs) s k)
                                           (flat pred ! source_index (shape pred) s k))
                               (flat pred ! source_index (shape pred) s k))
                        [0..<prod_list s]\<rparr> \<and>
      compute_residuals ops table obs pred (ascii ''diff/sqrt(model)'') =
        Inr \<lparr>shape = s,
             flat = map (\<lambda>k. div_op ops
                               (sub_op ops (flat obs ! source_index (shape obs) s k)
                                           (flat pred ! source_index (shape pred) s k))
                               (sqrt_op ops (flat pred ! source_index (shape pred) s k)))
                        [0..<prod_list s]\<rparr>) \<and>
   (broadcast_shapes (shape obs) (shape pred) = None \<longrightarrow>
      (\<forall>m\<in>{ascii ''diff'', ascii ''diff/model'', ascii ''diff/sqrt(model)''}.
         compute_residuals ops table obs pred m =
           Inl (ValueError ''operands could not be broadcast together'')))"
proof (intro conjI impI ballI)
  assume "method \<notin> {ascii ''diff'', ascii ''diff/model'', ascii ''diff/sqrt(model)''}"
  then show "compute_residuals ops table obs pred method =
        Inl (AttributeError (ascii ''Invalid method: '' @ py_repr table method @
               ascii ''. Choose between '' @ [39] @ ascii ''diff'' @ [39] @
               ascii '', '' @ [39] @ ascii ''diff/model'' @ [39] @
               ascii '' and '' @ [39] @ ascii ''diff/sqrt(model)'' @ [39]))"
    by (rule residuals_invalid)
next
  assume "\<forall>c\<in>set method. 32 \<le> c \<and> c < 127 \<and> c \<noteq> 39 \<and> c \<noteq> 92"
  then show "py_repr table method = [39] @ method @ [39]"
    by (rule repr_plain)
next
  assume a: "is_array obs \<and> is_array pred \<and> shape obs = shape pred"
  then have a1: "is_array obs" and a2: "is_array pred" and a3: "shape obs = shape pred"
    by simp_all
  show "compute_residuals ops table obs pred (ascii ''diff'') =
        Inr \<lparr>shape = shape obs,
             flat = map (\<lambda>i. sub_op ops (flat obs ! i) (flat pred ! i))
                        [0..<length (flat obs)]\<rparr>"
    by (rule residuals_same_shape(1) [OF a1 a2 a3])
  show "compute_residuals ops table obs pred (ascii ''diff/model'') =
        Inr \<lparr>shape = shape obs,
             flat = map (\<lambda>i. div_op ops (sub_op ops (flat obs ! i) (flat pred ! i))
                                         (flat pred ! i))
                        [0..<length (flat obs)]\<rparr>"
    by (rule residuals_same_shape(2) [OF a1 a2 a3])
  show "compute_residuals ops table obs pred (ascii ''diff/sqrt(model)'') =
        Inr \<lparr>shape = shape obs,
             flat = map (\<lambda>i. div_op ops (sub_op ops (flat obs ! i) (flat pred ! i))
                                         (sqrt_op ops (flat pred ! i)))
                        [0..<length (flat obs)]\<rparr>"
    by (rule residuals_same_shape(3) [OF a1 a2 a3])
next
  assume a: "is_array pred \<and> broadcast_shapes (shape obs) (shape pred) = Some s"
  then have a1: "is_array pred" and a2: "broadcast_shapes (shape obs) (shape pred) = Some s"
    by simp_all
  show "compute_residuals ops table obs pred (ascii ''diff'') =
        Inr \<lparr>shape = s,
             flat = map (\<lambda>k. sub_op ops (flat obs ! source_index (shape obs) s k)
                                         (flat pred ! source_index (shape pred) s k))
                        [0..<prod_list s]\<rparr>"
    by (rule residuals_diff [OF a2])
  show "compute_residuals ops table obs pred (ascii ''diff/model'') =
        Inr \<lparr>shape = s,
             flat = map (\<lambda>k. div_op ops
                               (sub_op ops (flat obs ! source_index (shape obs) s k)
                                           (flat pred ! source_index (shape pred) s k))
                               (flat pred ! source_index (shape pred) s k))
                        [0..<prod_list s]\<rparr>"
    by (rule residuals_diff_model [OF a2])
  show "compute_residuals ops table obs pred (ascii ''diff/sqrt(model)'') =
        Inr \<lparr>shape = s,
             flat = map (\<lambda>k. div_op ops
                               (sub_op ops (flat obs ! source_index (shape obs) s k)
                                           (flat pred ! source_index (shape pred) s k))
                               (sqrt_op ops (flat pred ! source_index (shape pred) s k)))
                        [0..<prod_list s]\<rparr>"
    by (rule residuals_diff_sqrt_model [OF a2 a1])
next
  fix m
  assume "broadcast_shapes (shape obs) (shape pred) = None"
    and "m \<in> {ascii ''diff'', ascii ''diff/model'', ascii ''diff/sqrt(model)''}"
  then show "compute_residuals ops table obs pred m =
           Inl (ValueError ''operands could not be broadcast together'')"
    by (rule residuals_not_broadcast)
qed


lemmas residual_defs = float64_ops_def counts3_def model3_def column2_def pair2_def
  is_array_def broadcast_shapes_def source_index_def ascii_def upt_rec

theorem compute_residuals_methods_witness:
  "compute_residuals float64_ops no_table counts3 model3 (ascii ''ratio'') =
     Inl (AttributeError (ascii ''Invalid method: '' @ [39] @ ascii ''ratio'' @ [39] @
            ascii ''. Choose between '' @ [39] @ ascii ''diff'' @ [39] @
            ascii '', '' @ [39] @ ascii ''diff/model'' @ [39] @
            ascii '' and '' @ [39] @ ascii ''diff/sqrt(model)'' @ [39])) \<and>
   compute_residuals float64_ops no_table counts3 model3 (ascii ''diff'') =
     Inr \<lparr>shape = [3], flat = [Finite 1, Finite 1, Finite 1]\<rparr> \<and>
   compute_residuals float64_ops no_table counts3 model3 (ascii ''diff/model'') =
     Inr \<lparr>shape = [3], flat = [Finite (1 / 4), Finite 1, PlusInf]\<rparr> \<and>
   compute_residuals float64_ops no_table counts3 model3 (ascii ''diff/sqrt(model)'') =
     Inr \<lparr>shape = [3], flat = [Finite (1 / 2), Finite 1, PlusInf]\<rparr> \<and>
   compute_residuals float64_ops no_table column2 pair2 (ascii ''diff'') =
     Inr \<lparr>shape = [2, 2], flat = [Finite 4, Finite 1, Finite 1, Finite (- 2)]\<rparr> \<and>
   compute_residuals float64_ops no_table column2 pair2 (ascii ''diff/model'') =
     Inr \<lparr>shape = [2, 2], flat = [Finite 4, Finite (1 / 4), Finite 1, Finite (- (1 / 2))]\<rparr> \<and>
   compute_residuals float64_ops no_table column2 pair2 (ascii ''diff/sqrt(model)'') =
     Inr \<lparr>shape = [2, 2], flat = [Finite 4, Finite (1 / 2), Finite 1, Finite (- 1)]\<rparr> \<and>
   compute_residuals float64_ops no_table counts3 pair2 (ascii ''diff/model'') =
     Inl (ValueError ''operands could not be broadcast together'')"
proof -
  have s4: "sqrt 4 = 2"
    using real_sqrt_abs [of 2] by simp
  note t1 = compute_residuals_methods [of "ascii ''ratio''" float64_ops no_table counts3 model3 "[3]"]
  note t2 = compute_residuals_methods [of "ascii ''ratio''" float64_ops no_table column2 pair2 "[2, 2]"]
  note t3 = compute_residuals_methods [of "ascii ''ratio''" float64_ops no_table counts3 pair2 "[3]"]
  have a: "compute_residuals float64_ops no_table counts3 model3 (ascii ''ratio'') =
     Inl (AttributeError (ascii ''Invalid method: '' @ [39] @ ascii ''ratio'' @ [39] @
            ascii ''. Choose between '' @ [39] @ ascii ''diff'' @ [39] @
            ascii '', '' @ [39] @ ascii ''diff/model'' @ [39] @
            ascii '' and '' @ [39] @ ascii ''diff/sqrt(model)'' @ [39]))"
    using t1 by (simp add: ascii_def)
  have b: "compute_residuals float64_ops no_table counts3 model3 (ascii ''diff'') =
     Inr \<lparr>shape = [3], flat = [Finite 1, Finite 1, Finite 1]\<rparr>"
    "compute_residuals float64_ops no_table counts3 model3 (ascii ''diff/model'') =
     Inr \<lparr>shape = [3], flat = [Finite (1 / 4), Finite 1, PlusInf]\<rparr>"
    "compute_residuals float64_ops no_table counts3 model3 (ascii ''diff/sqrt(model)'') =
     Inr \<lparr>shape = [3], flat = [Finite (1 / 2), Finite 1, PlusInf]\<rparr>"
    using t1 by (simp_all add: residual_defs f64_defs s4)
  have c: "compute_residuals float64_ops no_table column2 pair2 (ascii ''diff'') =
     Inr \<lparr>shape = [2, 2], flat = [Finite 4, Finite 1, Finite 1, Finite (- 2)]\<rparr>"
   "compute_residuals float64_ops no_table column2 pair2 (ascii ''diff/model'') =
     Inr \<lparr>shape = [2, 2], flat = [Finite 4, Finite (1 / 4), Finite 1, Finite (- (1 / 2))]\<rparr>"
   "compute_residuals float64_ops no_table column2 pair2 (ascii ''diff/sqrt(model)'') =
     Inr \<lparr>shape = [2, 2], flat = [Finite 4, Finite (1 / 2), Finite 1, Finite (- 1)]\<rparr>"
    using t2 by (simp_all add: residual_defs f64_defs s4)
  have d: "compute_residuals float64_ops no_table counts3 pair2 (ascii ''diff/model'') =
     Inl (ValueError ''operands could not be broadcast together'')"
    using t3 by (simp add: residual_defs)
  from a b c d show ?thesis by (intro conjI)
qed


lemma py_repr_examples:
  "py_repr no_table [97, 39, 98] = [34, 97, 39, 98, 34]"
  "py_repr no_table [97, 39, 98, 34] = [39, 97, 92, 39, 98, 34, 39]"
  "py_repr no_table [92, 9, 10, 13] = [39, 92, 92, 92, 116, 92, 110, 92, 114, 39]"
  "py_repr no_table [31, 127, 128, 133, 160, 173] =
     [39] @ [92, 120, 49, 102] @ [92, 120, 55, 102] @ [92, 120, 56, 48] @
     [92, 120, 56, 53] @ [92, 120, 97, 48] @ [92, 120, 97, 100] @ [39]"
  "py_repr no_table [126, 161, 172, 174, 255] = [39, 126, 161, 172, 174, 255, 39]"
  "py_repr no_table [8232, 1114111] =
     [39] @ [92, 117, 50, 48, 50, 56] @ [92, 85, 48, 48, 49, 48, 102, 102, 102, 102] @ [39]"
  "py_repr (\<lambda>c. c = 233 \<or> c = 8364) [233, 8364, 8232] =
     [39, 233, 8364] @ [92, 117, 50, 48, 50, 56] @ [39]"
  by (simp_all add: py_repr_def escape_char_def isprintable_def hex_digits_def squote_def
      dquote_def backslash_def no_table_def ascii_def upt_rec nth_Cons')

section \<open>Properties of the covariance\<close>

subsection \<open>Indices, blocks and matrices\<close>

lemma list_index_Some:
  "list_index P xs = Some i \<Longrightarrow> i < length xs \<and> P (xs ! i)"
  by (induction xs arbitrary: i) (auto split: if_splits)

lemma list_index_found:
  "\<exists>x\<in>set xs. P x \<Longrightarrow> \<exists>i. list_index P xs = Some i"
  by (induction xs) auto

lemma parameter_indices_Cons:
  "parameter_indices pool (p # ps) =
     bind_result (Parameters_index pool p)
       (\<lambda>i. bind_result (parameter_indices pool ps) (\<lambda>is. Inr (i # is)))"
  by (simp add: parameter_indices_def)

lemma parameter_indices_ok:
  assumes "par_id ` set ps \<subseteq> par_id ` set pool"
  shows "\<exists>idx. parameter_indices pool ps = Inr idx \<and> length idx = length ps
           \<and> (\<forall>a<length ps. idx ! a < length pool
                 \<and> par_id (pool ! (idx ! a)) = par_id (ps ! a))"
  using assms
proof (induction ps)
  case Nil
  show ?case by (simp add: parameter_indices_def)
next
  case (Cons p ps)
  from Cons.prems have "\<exists>q\<in>set pool. par_id q = par_id p" by auto
  then obtain i where i: "list_index (\<lambda>q. par_id q = par_id p) pool = Some i"
    using list_index_found by fastforce
  from list_index_Some [OF i] have ib: "i < length pool" "par_id (pool ! i) = par_id p"
    by auto
  from Cons.prems have "par_id ` set ps \<subseteq> par_id ` set pool" by auto
  from Cons.IH [OF this] obtain idx where
    idx: "parameter_indices pool ps = Inr idx" "length idx = length ps"
      "\<forall>a<length ps. idx ! a < length pool \<and> par_id (pool ! (idx ! a)) = par_id (ps ! a)"
    by blast
  have "parameter_indices pool (p # ps) = Inr (i # idx)"
    by (simp add: parameter_indices_Cons Parameters_index_def i idx(1) bind_result_def)
  moreover have "\<forall>a<length (p # ps). (i # idx) ! a < length pool
                 \<and> par_id (pool ! ((i # idx) ! a)) = par_id ((p # ps) ! a)"
    using ib idx(3) by (auto simp: nth_Cons')
  ultimately show ?case using idx(2) by simp
qed

lemma indices_distinct:
  assumes "distinct (map par_id ps)" "length idx = length ps"
    and "\<forall>a<length ps. par_id (pool ! (idx ! a)) = par_id (ps ! a)"
  shows "distinct idx"
proof -
  have "a = b" if "a < length idx" "b < length idx" "idx ! a = idx ! b" for a b
  proof -
    from that assms have "par_id (ps ! a) = par_id (ps ! b)" by metis
    then have "map par_id ps ! a = map par_id ps ! b" using that assms(2) by simp
    moreover have "a < length (map par_id ps)" "b < length (map par_id ps)"
      using that assms(2) by simp_all
    ultimately show ?thesis
      using assms(1) nth_eq_iff_index_eq by blast
  qed
  then show ?thesis by (auto simp: distinct_conv_nth)
qed

lemma is_matrix_nth:
  "is_matrix r c m \<Longrightarrow> i < r \<Longrightarrow> length (m ! i) = c"
  by (simp add: is_matrix_def list_all_length)

lemma is_matrix_length: "is_matrix r c m \<Longrightarrow> length m = r"
  by (simp add: is_matrix_def)

lemma in_range_matrix:
  assumes "is_matrix n n a" "\<forall>i\<in>set idx. i < n"
  shows "list_all (\<lambda>i. i < length a \<and> list_all (\<lambda>j. j < length (a ! i)) idx) idx"
  using assms by (auto simp: list_all_iff is_matrix_nth is_matrix_length)

lemma ix_get_matrix:
  assumes "is_matrix n n a" "\<forall>i\<in>set idx. i < n"
  shows "ix_get a idx = Inr (map (\<lambda>i. map (\<lambda>j. a ! i ! j) idx) idx)"
  using in_range_matrix [OF assms] by (simp add: ix_get_def)

lemma zeroed_matrix:
  assumes "is_matrix n n a"
  shows "is_matrix n n (zero_cols (zero_rows a idx) idx)"
  using assms
  by (auto simp: is_matrix_def zero_cols_def zero_rows_def list_all_length)

lemma zeroed_nth:
  assumes "is_matrix n n a" "i < n" "j < n"
  shows "zero_cols (zero_rows a idx) idx ! i ! j =
           (if i \<in> set idx \<or> j \<in> set idx then Fin 0 else a ! i ! j)"
  using assms
  by (auto simp: is_matrix_def zero_cols_def zero_rows_def list_all_length)

lemma last_index_None: "last_index xs x = None \<longleftrightarrow> x \<notin> set xs"
  by (induction xs) (auto split: option.splits)

lemma last_index_nth:
  "distinct xs \<Longrightarrow> p < length xs \<Longrightarrow> last_index xs (xs ! p) = Some p"
proof (induction xs arbitrary: p)
  case Nil
  then show ?case by simp
next
  case (Cons y ys)
  show ?case
  proof (cases p)
    case 0
    with Cons.prems have "y \<notin> set ys" by simp
    then have "last_index ys y = None" by (simp add: last_index_None)
    with 0 show ?thesis by simp
  next
    case (Suc q)
    with Cons show ?thesis by simp
  qed
qed

lemma ix_set_matrix:
  assumes "is_matrix n n a" "\<forall>i\<in>set idx. i < n" "is_matrix (length idx) (length idx) v"
  shows "\<exists>r. ix_set a idx v = Inr r \<and> is_matrix n n r
           \<and> (\<forall>i<n. \<forall>j<n. r ! i ! j =
                 (case (last_index idx i, last_index idx j) of
                    (Some p, Some q) \<Rightarrow> v ! p ! q | _ \<Rightarrow> a ! i ! j))"
proof -
  let ?r = "map (\<lambda>i. map (\<lambda>j.
              case (last_index idx i, last_index idx j) of
                (Some p, Some q) \<Rightarrow> v ! p ! q
              | _ \<Rightarrow> a ! i ! j) [0..<length (a ! i)]) [0..<length a]"
  have "ix_set a idx v = Inr ?r"
    using in_range_matrix [OF assms(1,2)] assms(3) by (simp add: ix_set_def)
  moreover have "is_matrix n n ?r"
    using assms(1) by (auto simp: is_matrix_def list_all_length)
  moreover have "\<forall>i<n. \<forall>j<n. ?r ! i ! j =
                 (case (last_index idx i, last_index idx j) of
                    (Some p, Some q) \<Rightarrow> v ! p ! q | _ \<Rightarrow> a ! i ! j)"
    using assms(1) by (auto simp: is_matrix_def list_all_length split: option.splits)
  ultimately show ?thesis by blast
qed

lemma block_written:
  assumes "distinct idx" "\<forall>i\<in>set idx. i < n" "is_matrix (length idx) (length idx) v"
    and "is_matrix n n r"
    and "\<forall>i<n. \<forall>j<n. r ! i ! j =
                 (case (last_index idx i, last_index idx j) of
                    (Some p, Some q) \<Rightarrow> v ! p ! q | _ \<Rightarrow> a ! i ! j)"
  shows "ix_get r idx = Inr v"
proof -
  have "map (\<lambda>i. map (\<lambda>j. r ! i ! j) idx) idx = v"
  proof (rule nth_equalityI)
    show "length (map (\<lambda>i. map (\<lambda>j. r ! i ! j) idx) idx) = length v"
      using assms(3) by (simp add: is_matrix_def)
  next
    fix p assume "p < length (map (\<lambda>i. map (\<lambda>j. r ! i ! j) idx) idx)"
    then have p: "p < length idx" by simp
    have "map (\<lambda>j. r ! (idx ! p) ! j) idx = v ! p"
    proof (rule nth_equalityI)
      show "length (map (\<lambda>j. r ! (idx ! p) ! j) idx) = length (v ! p)"
        using is_matrix_nth [OF assms(3) p] by simp
    next
      fix q assume "q < length (map (\<lambda>j. r ! (idx ! p) ! j) idx)"
      then have q: "q < length idx" by simp
      from p q assms(2) have "idx ! p < n" "idx ! q < n" by auto
      with assms(5) have "r ! (idx ! p) ! (idx ! q) =
          (case (last_index idx (idx ! p), last_index idx (idx ! q)) of
             (Some p, Some q) \<Rightarrow> v ! p ! q | _ \<Rightarrow> a ! (idx ! p) ! (idx ! q))"
        by blast
      then show "map (\<lambda>j. r ! (idx ! p) ! j) idx ! q = v ! p ! q"
        using p q by (simp add: last_index_nth [OF assms(1)])
    qed
    with p show "map (\<lambda>i. map (\<lambda>j. r ! i ! j) idx) idx ! p = v ! p" by simp
  qed
  then show ?thesis using ix_get_matrix [OF assms(4,2)] by simp
qed

lemma outside_block:
  assumes "\<not> (i \<in> set idx \<and> j \<in> set idx)"
  shows "(case (last_index idx i, last_index idx j) of
            (Some p, Some q) \<Rightarrow> f p q | _ \<Rightarrow> z) = z"
proof -
  from assms have "last_index idx i = None \<or> last_index idx j = None"
    by (simp add: last_index_None)
  then show ?thesis by (auto split: option.splits)
qed

subsection \<open>Setting a sub-covariance\<close>

lemma same_shape_matrix:
  "is_matrix r c a \<Longrightarrow> is_matrix r c b \<Longrightarrow> same_shape a b"
  by (simp add: same_shape_def is_matrix_def list_all2_conv_all_nth list_all_length)

lemma block_is_matrix:
  "is_matrix (length idx) (length idx) (map (\<lambda>i. map (\<lambda>j. a ! i ! j) idx) idx)"
  by (simp add: is_matrix_def list_all_iff)

text \<open>
  Claim C3. Let \<open>C\<close> be a covariance whose matrix has the size of its pool and
  \<open>S\<close> one whose parameters are distinct and all belong to the pool of \<open>C\<close>, with a
  matrix of the size of its own pool. Then \<open>set_subcovariance\<close> succeeds, and in the
  result the block at the indices of the parameters of \<open>S\<close> is the matrix of \<open>S\<close>.
  When the block was not close to that matrix before, every entry with exactly one of
  its two indices among those of \<open>S\<close> is zero; when it was, every entry outside the
  block is as before.
\<close>

theorem set_subcovariance_block:
  assumes C: "is_matrix (length (parameters C)) (length (parameters C)) (data C)"
      and S: "is_matrix (length (parameters S)) (length (parameters S)) (data S)"
      and sub: "par_id ` set (parameters S) \<subseteq> par_id ` set (parameters C)"
      and dist: "distinct (map par_id (parameters S))"
  shows "\<exists>C' idx block close.
           parameter_indices (parameters C) (parameters S) = Inr idx
         \<and> ix_get (data C) idx = Inr block
         \<and> np_allclose block (data S) = Inr close
         \<and> set_subcovariance C S = Inr C'
         \<and> parameters C' = parameters C
         \<and> ix_get (data C') idx = Inr (data S)
         \<and> (\<not> close \<longrightarrow>
              (\<forall>i<length (parameters C). \<forall>j<length (parameters C).
                 (i \<in> set idx) \<noteq> (j \<in> set idx) \<longrightarrow> data C' ! i ! j = Fin 0))
         \<and> (close \<longrightarrow>
              (\<forall>i<length (parameters C). \<forall>j<length (parameters C).
                 \<not> (i \<in> set idx \<and> j \<in> set idx) \<longrightarrow> data C' ! i ! j = data C ! i ! j))"
proof -
  let ?n = "length (parameters C)"
  from parameter_indices_ok [OF sub] obtain idx where
    idx: "parameter_indices (parameters C) (parameters S) = Inr idx"
      and len: "length idx = length (parameters S)"
      and pos: "\<forall>a<length (parameters S). idx ! a < ?n
                 \<and> par_id (parameters C ! (idx ! a)) = par_id (parameters S ! a)"
    by blast
  have rng: "\<forall>i\<in>set idx. i < ?n"
    using pos len by (auto simp: in_set_conv_nth)
  have didx: "distinct idx"
    using indices_distinct [OF dist len] pos by blast
  let ?block = "map (\<lambda>i. map (\<lambda>j. data C ! i ! j) idx) idx"
  have blk: "ix_get (data C) idx = Inr ?block"
    by (rule ix_get_matrix [OF C rng])
  have S': "is_matrix (length idx) (length idx) (data S)"
    using S len by simp
  let ?close = "list_all2 (list_all2 fl_isclose) ?block (data S)"
  have cl: "np_allclose ?block (data S) = Inr ?close"
    using same_shape_matrix [OF block_is_matrix S'] by (simp add: np_allclose_def)
  define d where "d = (if \<not> ?close then zero_cols (zero_rows (data C) idx) idx else data C)"
  have dm: "is_matrix ?n ?n d"
    using C zeroed_matrix [OF C] by (simp add: d_def)
  from ix_set_matrix [OF dm rng S'] obtain r where
    r: "ix_set d idx (data S) = Inr r" and rm: "is_matrix ?n ?n r"
      and rn: "\<forall>i<?n. \<forall>j<?n. r ! i ! j =
                 (case (last_index idx i, last_index idx j) of
                    (Some p, Some q) \<Rightarrow> data S ! p ! q | _ \<Rightarrow> d ! i ! j)"
    by blast
  have res: "set_subcovariance C S = Inr (C\<lparr>data := r\<rparr>)"
    using r by (simp add: set_subcovariance_def idx blk cl bind_result_def Let_def d_def)
  have got: "ix_get (data (C\<lparr>data := r\<rparr>)) idx = Inr (data S)"
    using block_written [OF didx rng S' rm rn] by simp
  have out: "r ! i ! j = d ! i ! j"
    if "i < ?n" "j < ?n" "\<not> (i \<in> set idx \<and> j \<in> set idx)" for i j
  proof -
    from rn that(1,2) have "r ! i ! j =
        (case (last_index idx i, last_index idx j) of
           (Some p, Some q) \<Rightarrow> data S ! p ! q | _ \<Rightarrow> d ! i ! j)"
      by blast
    also have "\<dots> = d ! i ! j"
      by (rule outside_block [OF that(3)])
    finally show ?thesis .
  qed
  have zero: "data (C\<lparr>data := r\<rparr>) ! i ! j = Fin 0"
    if "\<not> ?close" "i < ?n" "j < ?n" "(i \<in> set idx) \<noteq> (j \<in> set idx)" for i j
  proof -
    from that have no: "\<not> (i \<in> set idx \<and> j \<in> set idx)" and some: "i \<in> set idx \<or> j \<in> set idx"
      by auto
    have "r ! i ! j = d ! i ! j" by (rule out [OF that(2,3) no])
    also have "d = zero_cols (zero_rows (data C) idx) idx"
      using that(1) by (simp add: d_def)
    also have "zero_cols (zero_rows (data C) idx) idx ! i ! j = Fin 0"
      using zeroed_nth [OF C that(2,3), of idx] some by simp
    finally show ?thesis by simp
  qed
  have same: "data (C\<lparr>data := r\<rparr>) ! i ! j = data C ! i ! j"
    if "?close" "i < ?n" "j < ?n" "\<not> (i \<in> set idx \<and> j \<in> set idx)" for i j
    using out [OF that(2,3,4)] that(1) by (simp add: d_def)
  show ?thesis
    using idx blk cl res got zero same
    by (intro exI [of _ "C\<lparr>data := r\<rparr>"] exI [of _ idx] exI [of _ ?block]
        exI [of _ ?close]) simp
qed

lemmas example_defs = cov3_def sub2_def pP_def pQ_def pR_def par_def Covariance_init_def

theorem set_subcovariance_block_witness:
  "\<exists>C' idx block close.
           parameter_indices (parameters cov3) (parameters sub2) = Inr idx
         \<and> ix_get (data cov3) idx = Inr block
         \<and> np_allclose block (data sub2) = Inr close
         \<and> set_subcovariance cov3 sub2 = Inr C'
         \<and> parameters C' = parameters cov3
         \<and> ix_get (data C') idx = Inr (data sub2)
         \<and> (\<not> close \<longrightarrow>
              (\<forall>i<length (parameters cov3). \<forall>j<length (parameters cov3).
                 (i \<in> set idx) \<noteq> (j \<in> set idx) \<longrightarrow> data C' ! i ! j = Fin 0))
         \<and> (close \<longrightarrow>
              (\<forall>i<length (parameters cov3). \<forall>j<length (parameters cov3).
                 \<not> (i \<in> set idx \<and> j \<in> set idx) \<longrightarrow> data C' ! i ! j = data cov3 ! i ! j))"
  by (rule set_subcovariance_block) (simp_all add: example_defs is_matrix_def)

lemma set_subcovariance_example:
  "set_subcovariance cov3 sub2 =
     Inr (cov3\<lparr>data := [[Fin 9, Fin 0, Fin 1], [Fin 0, Fin 1, Fin 0], [Fin 1, Fin 0, Fin 4]]\<rparr>)"
  by (simp add: set_subcovariance_def example_defs parameter_indices_def Parameters_index_def
      bind_result_def ix_get_def np_allclose_def same_shape_def zero_rows_def zero_cols_def
      ix_set_def is_matrix_def Let_def nth_Cons' upt_rec)

subsection \<open>Expanding and scaling a factor matrix\<close>











lemma np_binop2_matrix:
  assumes "is_matrix r c a" "is_matrix r c b"
  shows "\<exists>m. np_binop2 f a b = Inr m \<and> is_matrix r c m
           \<and> (\<forall>i<r. \<forall>j<c. m ! i ! j = f (a ! i ! j) (b ! i ! j))"
proof -
  have "same_shape a b"
    using assms by (simp add: same_shape_def is_matrix_def list_all2_conv_all_nth list_all_length)
  then have "np_binop2 f a b = Inr (map2 (map2 f) a b)"
    by (simp add: np_binop2_def)
  moreover have "is_matrix r c (map2 (map2 f) a b)"
    using assms by (simp add: is_matrix_def list_all_length)
  moreover have "\<forall>i<r. \<forall>j<c. map2 (map2 f) a b ! i ! j = f (a ! i ! j) (b ! i ! j)"
    using assms by (simp add: is_matrix_def list_all_length)
  ultimately show ?thesis by blast
qed






lemma from_factor_matrix_examples:
  "from_factor_matrix [pP, pQ, pR] red2 =
     Inr \<lparr>parameters = [pP, pQ, pR], filename = None,
          data = [[Fin 4, Fin 0, Fin 20], [Fin 0, Fin 0, Fin 0], [Fin 30, Fin 0, Fin 100]]\<rparr>"
  "from_factor_matrix [pP, pQ, pR] [[Fin 1, Fin 2]] =
     Inl (ValueError ''cannot assign the input values to the output values where the mask is true'')"
  by (simp_all add: from_factor_matrix_def expand_factor_matrix_def bool_assign_def
      same_shape_def count_true_def np_zeros_def np_outer_def np_binop2_def is_matrix_def
      red2_def pP_def pQ_def pR_def par_def Covariance_init_def bind_result_def Let_def
      numeral_3_eq_3)

subsection \<open>Stacking sub-covariances\<close>

lemma set_subcovariance_entries:
  assumes C: "is_matrix (length (parameters C)) (length (parameters C)) (data C)"
      and S: "is_matrix (length (parameters S)) (length (parameters S)) (data S)"
      and sub: "par_id ` set (parameters S) \<subseteq> par_id ` set (parameters C)"
      and dist: "distinct (map par_id (parameters S))"
  shows "\<exists>idx r.
           parameter_indices (parameters C) (parameters S) = Inr idx
         \<and> ix_get r idx = Inr (data S)
         \<and> set_subcovariance C S = Inr (C\<lparr>data := r\<rparr>)
         \<and> is_matrix (length (parameters C)) (length (parameters C)) r
         \<and> length idx = length (parameters S)
         \<and> (\<forall>a<length (parameters S). idx ! a < length (parameters C)
               \<and> par_id (parameters C ! (idx ! a)) = par_id (parameters S ! a))
         \<and> (\<forall>a<length (parameters S). \<forall>b<length (parameters S).
               r ! (idx ! a) ! (idx ! b) = data S ! a ! b)
         \<and> (\<forall>i<length (parameters C). \<forall>j<length (parameters C).
               i \<notin> set idx \<and> j \<notin> set idx \<longrightarrow> r ! i ! j = data C ! i ! j)
         \<and> (\<forall>i<length (parameters C). \<forall>j<length (parameters C).
               (i \<in> set idx) \<noteq> (j \<in> set idx) \<longrightarrow>
               r ! i ! j = data C ! i ! j \<or> r ! i ! j = Fin 0)"
proof -
  let ?n = "length (parameters C)"
  from parameter_indices_ok [OF sub] obtain idx where
    idx: "parameter_indices (parameters C) (parameters S) = Inr idx"
      and len: "length idx = length (parameters S)"
      and pos: "\<forall>a<length (parameters S). idx ! a < ?n
                 \<and> par_id (parameters C ! (idx ! a)) = par_id (parameters S ! a)"
    by blast
  have rng: "\<forall>i\<in>set idx. i < ?n"
    using pos len by (auto simp: in_set_conv_nth)
  have didx: "distinct idx"
    using indices_distinct [OF dist len] pos by blast
  let ?block = "map (\<lambda>i. map (\<lambda>j. data C ! i ! j) idx) idx"
  have blk: "ix_get (data C) idx = Inr ?block"
    by (rule ix_get_matrix [OF C rng])
  have S': "is_matrix (length idx) (length idx) (data S)"
    using S len by simp
  let ?close = "list_all2 (list_all2 fl_isclose) ?block (data S)"
  have cl: "np_allclose ?block (data S) = Inr ?close"
    using same_shape_matrix [OF block_is_matrix S'] by (simp add: np_allclose_def)
  define d where "d = (if \<not> ?close then zero_cols (zero_rows (data C) idx) idx else data C)"
  have dm: "is_matrix ?n ?n d"
    using C zeroed_matrix [OF C] by (simp add: d_def)
  from ix_set_matrix [OF dm rng S'] obtain r where
    r: "ix_set d idx (data S) = Inr r" and rm: "is_matrix ?n ?n r"
      and rn: "\<forall>i<?n. \<forall>j<?n. r ! i ! j =
                 (case (last_index idx i, last_index idx j) of
                    (Some p, Some q) \<Rightarrow> data S ! p ! q | _ \<Rightarrow> d ! i ! j)"
    by blast
  have res: "set_subcovariance C S = Inr (C\<lparr>data := r\<rparr>)"
    using r by (simp add: set_subcovariance_def idx blk cl bind_result_def Let_def d_def)
  have inb: "r ! (idx ! a) ! (idx ! b) = data S ! a ! b"
    if "a < length (parameters S)" "b < length (parameters S)" for a b
  proof -
    from that len have a: "a < length idx" and b: "b < length idx" by simp_all
    with rng have "idx ! a < ?n" "idx ! b < ?n" by auto
    with rn have "r ! (idx ! a) ! (idx ! b) =
          (case (last_index idx (idx ! a), last_index idx (idx ! b)) of
             (Some p, Some q) \<Rightarrow> data S ! p ! q | _ \<Rightarrow> d ! (idx ! a) ! (idx ! b))"
      by blast
    then show ?thesis
      using a b by (simp add: last_index_nth [OF didx])
  qed
  have out: "r ! i ! j = d ! i ! j"
    if "i < ?n" "j < ?n" "\<not> (i \<in> set idx \<and> j \<in> set idx)" for i j
  proof -
    from rn that(1,2) have "r ! i ! j =
        (case (last_index idx i, last_index idx j) of
           (Some p, Some q) \<Rightarrow> data S ! p ! q | _ \<Rightarrow> d ! i ! j)"
      by blast
    also have "\<dots> = d ! i ! j"
      by (rule outside_block [OF that(3)])
    finally show ?thesis .
  qed
  have dval: "d ! i ! j = (if \<not> ?close \<and> (i \<in> set idx \<or> j \<in> set idx) then Fin 0
                           else data C ! i ! j)"
    if "i < ?n" "j < ?n" for i j
    using zeroed_nth [OF C that, of idx] by (simp add: d_def)
  have none: "r ! i ! j = data C ! i ! j"
    if "i < ?n" "j < ?n" "i \<notin> set idx \<and> j \<notin> set idx" for i j
    using out [OF that(1,2)] dval [OF that(1,2)] that(3) by simp
  have one: "r ! i ! j = data C ! i ! j \<or> r ! i ! j = Fin 0"
    if "i < ?n" "j < ?n" "(i \<in> set idx) \<noteq> (j \<in> set idx)" for i j
  proof -
    from that(3) have "\<not> (i \<in> set idx \<and> j \<in> set idx)" by auto
    from out [OF that(1,2) this] dval [OF that(1,2)] show ?thesis by simp
  qed
  have got: "ix_get r idx = Inr (data S)"
    by (rule block_written [OF didx rng S' rm rn])
  show ?thesis
    using idx got res rm len pos inb none one
    by (intro exI [of _ idx] exI [of _ r]) simp
qed

lemma unique_parameters_distinct:
  "distinct (map par_id (seen @ ps)) \<Longrightarrow> unique_parameters seen ps = seen @ ps"
proof (induction ps arbitrary: seen)
  case Nil
  show ?case by simp
next
  case (Cons p ps)
  from Cons.prems have "par_id p \<notin> par_id ` set seen" by auto
  moreover from Cons.prems have "distinct (map par_id ((seen @ [p]) @ ps))" by simp
  ultimately show ?case using Cons.IH [of "seen @ [p]"] by simp
qed

lemma np_diag_matrix: "is_matrix (length v) (length v) (np_diag v)"
  by (simp add: is_matrix_def np_diag_def list_all_iff)

lemma np_diag_off:
  "i < length v \<Longrightarrow> j < length v \<Longrightarrow> i \<noteq> j \<Longrightarrow> np_diag v ! i ! j = Fin 0"
  by (simp add: np_diag_def)

lemma same_parameter:
  assumes "distinct (map par_id pool)" "i < length pool" "j < length pool"
    and "par_id (pool ! i) = par_id (pool ! j)"
  shows "i = j"
proof -
  have "map par_id pool ! i = map par_id pool ! j" using assms by simp
  moreover have "i < length (map par_id pool)" "j < length (map par_id pool)"
    using assms by simp_all
  ultimately show ?thesis using assms(1) nth_eq_iff_index_eq by blast
qed

lemma indices_are:
  assumes d: "distinct (map par_id pool)"
    and len: "length idx = k"
    and pos: "\<forall>a<k. idx ! a < length pool \<and> par_id (pool ! (idx ! a)) = par_id (pool ! (off + a))"
    and fit: "off + k \<le> length pool"
  shows "idx = [off..<off + k]"
proof (rule nth_equalityI)
  show "length idx = length [off..<off + k]" using len by simp
next
  fix a assume "a < length idx"
  then have a: "a < k" using len by simp
  with pos have "idx ! a < length pool" "par_id (pool ! (idx ! a)) = par_id (pool ! (off + a))"
    by auto
  moreover have "off + a < length pool" using a fit by simp
  ultimately have "idx ! a = off + a" using same_parameter [OF d] by blast
  then show "idx ! a = [off..<off + k] ! a" using a by simp
qed

lemma from_stack_two_blocks:
  assumes S1: "is_matrix (length (parameters S1)) (length (parameters S1)) (data S1)"
      and S2: "is_matrix (length (parameters S2)) (length (parameters S2)) (data S2)"
      and dist: "distinct (map par_id (parameters S1 @ parameters S2))"
  shows "\<exists>C. Covariance_from_stack [S1, S2] = Inr C
           \<and> parameters C = parameters S1 @ parameters S2
           \<and> is_matrix (length (parameters S1) + length (parameters S2))
                (length (parameters S1) + length (parameters S2)) (data C)
           \<and> (\<forall>i<length (parameters S1) + length (parameters S2).
              \<forall>j<length (parameters S1) + length (parameters S2).
                data C ! i ! j =
                  (if i < length (parameters S1) \<and> j < length (parameters S1)
                     then data S1 ! i ! j
                   else if length (parameters S1) \<le> i \<and> length (parameters S1) \<le> j
                     then data S2 ! (i - length (parameters S1)) ! (j - length (parameters S1))
                   else Fin 0))"
proof -
  let ?ps1 = "parameters S1" and ?ps2 = "parameters S2"
  let ?k1 = "length ?ps1" and ?k2 = "length ?ps2"
  let ?all = "?ps1 @ ?ps2"
  let ?n = "?k1 + ?k2"
  let ?errs = "map (\<lambda>p. fl_mul (par_error p) (par_error p)) ?all"
  define C0 where "C0 = Covariance_init ?all None None"
  have pool: "Parameters_from_stack (map parameters [S1, S2]) = ?all"
    using unique_parameters_distinct [of "[]" ?all] dist
    by (simp add: Parameters_from_stack_def)
  have start: "Covariance_from_stack [S1, S2] = set_subcovariances C0 [S1, S2]"
    unfolding Covariance_from_stack_def Let_def pool C0_def ..
  have p0: "parameters C0 = ?all" by (simp add: C0_def Covariance_init_def)
  have d0: "data C0 = np_diag ?errs" by (simp add: C0_def Covariance_init_def)
  have n0: "length (parameters C0) = ?n" by (simp add: p0)
  have m0: "is_matrix (length (parameters C0)) (length (parameters C0)) (data C0)"
    using np_diag_matrix [of ?errs] by (simp add: p0 d0)
  have off0: "data C0 ! i ! j = Fin 0" if "i < ?n" "j < ?n" "i \<noteq> j" for i j
    using np_diag_off [of i ?errs j] that by (simp add: d0)
  have dall: "distinct (map par_id (parameters C0))" using dist by (simp add: p0)
  \<comment> \<open>first sub-covariance\<close>
  have sub1: "par_id ` set ?ps1 \<subseteq> par_id ` set (parameters C0)" by (auto simp: p0)
  have dist1: "distinct (map par_id ?ps1)" using dist by simp
  from set_subcovariance_entries [OF m0 S1 sub1 dist1] obtain idx1 r1 where
    s1: "set_subcovariance C0 S1 = Inr (C0\<lparr>data := r1\<rparr>)"
    and rm1: "is_matrix (length (parameters C0)) (length (parameters C0)) r1"
    and l1: "length idx1 = ?k1"
    and pos1: "\<forall>a<?k1. idx1 ! a < length (parameters C0)
               \<and> par_id (parameters C0 ! (idx1 ! a)) = par_id (?ps1 ! a)"
    and in1: "\<forall>a<?k1. \<forall>b<?k1. r1 ! (idx1 ! a) ! (idx1 ! b) = data S1 ! a ! b"
    and none1: "\<forall>i<length (parameters C0). \<forall>j<length (parameters C0).
               i \<notin> set idx1 \<and> j \<notin> set idx1 \<longrightarrow> r1 ! i ! j = data C0 ! i ! j"
    and one1: "\<forall>i<length (parameters C0). \<forall>j<length (parameters C0).
               (i \<in> set idx1) \<noteq> (j \<in> set idx1) \<longrightarrow>
               r1 ! i ! j = data C0 ! i ! j \<or> r1 ! i ! j = Fin 0"
    by blast
  have "\<forall>a<?k1. idx1 ! a < length (parameters C0)
          \<and> par_id (parameters C0 ! (idx1 ! a)) = par_id (parameters C0 ! (0 + a))"
    using pos1 by (simp add: p0 nth_append)
  from indices_are [OF dall l1 this] have i1: "idx1 = [0..<?k1]" by (simp add: p0)
  have blk1: "r1 ! i ! j = data S1 ! i ! j" if "i < ?k1" "j < ?k1" for i j
    using in1 that by (simp add: i1)
  have zero1: "r1 ! i ! j = Fin 0"
    if "i < ?n" "j < ?n" "i \<noteq> j" "\<not> (i < ?k1 \<and> j < ?k1)" for i j
  proof (cases "i < ?k1 \<or> j < ?k1")
    case True
    with that(4) have "(i \<in> set idx1) \<noteq> (j \<in> set idx1)" by (auto simp: i1)
    with one1 that(1,2) have "r1 ! i ! j = data C0 ! i ! j \<or> r1 ! i ! j = Fin 0"
      by (simp add: n0)
    with off0 [OF that(1,2,3)] show ?thesis by auto
  next
    case False
    then have "i \<notin> set idx1 \<and> j \<notin> set idx1" by (auto simp: i1)
    with none1 that(1,2) have "r1 ! i ! j = data C0 ! i ! j" by (simp add: n0)
    with off0 [OF that(1,2,3)] show ?thesis by simp
  qed
  \<comment> \<open>second sub-covariance\<close>
  define C1 where "C1 = C0\<lparr>data := r1\<rparr>"
  have p1: "parameters C1 = ?all" by (simp add: C1_def p0)
  have n1: "length (parameters C1) = ?n" by (simp add: p1)
  have m1: "is_matrix (length (parameters C1)) (length (parameters C1)) (data C1)"
    using rm1 by (simp add: C1_def)
  have r1d: "data C1 = r1" by (simp add: C1_def)
  have dall1: "distinct (map par_id (parameters C1))" using dist by (simp add: p1)
  have sub2: "par_id ` set ?ps2 \<subseteq> par_id ` set (parameters C1)" by (auto simp: p1)
  have dist2: "distinct (map par_id ?ps2)" using dist by simp
  from set_subcovariance_entries [OF m1 S2 sub2 dist2] obtain idx2 r2 where
    s2: "set_subcovariance C1 S2 = Inr (C1\<lparr>data := r2\<rparr>)"
    and rm2: "is_matrix (length (parameters C1)) (length (parameters C1)) r2"
    and l2: "length idx2 = ?k2"
    and pos2: "\<forall>a<?k2. idx2 ! a < length (parameters C1)
               \<and> par_id (parameters C1 ! (idx2 ! a)) = par_id (?ps2 ! a)"
    and in2: "\<forall>a<?k2. \<forall>b<?k2. r2 ! (idx2 ! a) ! (idx2 ! b) = data S2 ! a ! b"
    and none2: "\<forall>i<length (parameters C1). \<forall>j<length (parameters C1).
               i \<notin> set idx2 \<and> j \<notin> set idx2 \<longrightarrow> r2 ! i ! j = data C1 ! i ! j"
    and one2: "\<forall>i<length (parameters C1). \<forall>j<length (parameters C1).
               (i \<in> set idx2) \<noteq> (j \<in> set idx2) \<longrightarrow>
               r2 ! i ! j = data C1 ! i ! j \<or> r2 ! i ! j = Fin 0"
    by blast
  have "\<forall>a<?k2. idx2 ! a < length (parameters C1)
          \<and> par_id (parameters C1 ! (idx2 ! a)) = par_id (parameters C1 ! (?k1 + a))"
    using pos2 by (simp add: p1 nth_append)
  from indices_are [OF dall1 l2 this] have i2: "idx2 = [?k1..<?k1 + ?k2]" by (simp add: p1)
  have blk2: "r2 ! i ! j = data S2 ! (i - ?k1) ! (j - ?k1)"
    if "?k1 \<le> i" "?k1 \<le> j" "i < ?n" "j < ?n" for i j
  proof -
    from that have a: "i - ?k1 < ?k2" "j - ?k1 < ?k2" by auto
    with in2 have "r2 ! (idx2 ! (i - ?k1)) ! (idx2 ! (j - ?k1)) = data S2 ! (i - ?k1) ! (j - ?k1)"
      by blast
    moreover have "idx2 ! (i - ?k1) = i" "idx2 ! (j - ?k1) = j"
      using that a by (simp_all add: i2)
    ultimately show ?thesis by simp
  qed
  have keep2: "r2 ! i ! j = data S1 ! i ! j" if "i < ?k1" "j < ?k1" for i j
  proof -
    from that have "i \<notin> set idx2 \<and> j \<notin> set idx2" by (auto simp: i2)
    moreover from that have "i < ?n" "j < ?n" by auto
    ultimately have "r2 ! i ! j = r1 ! i ! j" using none2 by (simp add: n1 r1d)
    with blk1 [OF that] show ?thesis by simp
  qed
  have zero2: "r2 ! i ! j = Fin 0"
    if "i < ?n" "j < ?n" "\<not> (i < ?k1 \<and> j < ?k1)" "\<not> (?k1 \<le> i \<and> ?k1 \<le> j)" for i j
  proof -
    from that have ne: "i \<noteq> j" by auto
    from that have "(i \<in> set idx2) \<noteq> (j \<in> set idx2)" by (auto simp: i2)
    with one2 that(1,2) have "r2 ! i ! j = r1 ! i ! j \<or> r2 ! i ! j = Fin 0"
      by (simp add: n1 r1d)
    with zero1 [OF that(1,2) ne that(3)] show ?thesis by auto
  qed
  have res: "Covariance_from_stack [S1, S2] = Inr (C1\<lparr>data := r2\<rparr>)"
    using s1 s2 by (simp add: start bind_result_def C1_def)
  have ent: "data (C1\<lparr>data := r2\<rparr>) ! i ! j =
                  (if i < ?k1 \<and> j < ?k1 then data S1 ! i ! j
                   else if ?k1 \<le> i \<and> ?k1 \<le> j then data S2 ! (i - ?k1) ! (j - ?k1)
                   else Fin 0)" if "i < ?n" "j < ?n" for i j
    using keep2 [of i j] blk2 [of i j] zero2 [of i j] that by auto
  show ?thesis
    using res p1 rm2 ent by (intro exI [of _ "C1\<lparr>data := r2\<rparr>"]) (simp add: n1)
qed

lemma ix_set_shape:
  assumes "ix_set a idx v = Inr r" "is_matrix n m a"
  shows "is_matrix n m r"
proof -
  from assms(1) have "r = map (\<lambda>i. map (\<lambda>j.
              case (last_index idx i, last_index idx j) of
                (Some p, Some q) \<Rightarrow> v ! p ! q
              | _ \<Rightarrow> a ! i ! j) [0..<length (a ! i)]) [0..<length a]"
    by (simp add: ix_set_def split: if_splits)
  with assms(2) show ?thesis
    by (simp add: is_matrix_def list_all_length)
qed

lemma zeroed_shape:
  "is_matrix n m a \<Longrightarrow> is_matrix n m (zero_cols (zero_rows a idx) idx)"
  by (auto simp: is_matrix_def zero_cols_def zero_rows_def list_all_length)

lemma set_subcovariance_steps:
  assumes "set_subcovariance C S = Inr C'"
  shows "\<exists>idx block close d'.
           parameter_indices (parameters C) (parameters S) = Inr idx
         \<and> ix_get (data C) idx = Inr block
         \<and> np_allclose block (data S) = Inr close
         \<and> ix_set (if \<not> close then zero_cols (zero_rows (data C) idx) idx else data C)
               idx (data S) = Inr d'
         \<and> C' = C\<lparr>data := d'\<rparr>"
proof (cases "parameter_indices (parameters C) (parameters S)")
  case (Inl e)
  with assms show ?thesis by (simp add: set_subcovariance_def bind_result_def)
next
  case idx: (Inr idx)
  show ?thesis
  proof (cases "ix_get (data C) idx")
    case (Inl e)
    with assms idx show ?thesis by (simp add: set_subcovariance_def bind_result_def)
  next
    case block: (Inr block)
    show ?thesis
    proof (cases "np_allclose block (data S)")
      case (Inl e)
      with assms idx block show ?thesis by (simp add: set_subcovariance_def bind_result_def)
    next
      case close: (Inr close)
      let ?d = "if \<not> close then zero_cols (zero_rows (data C) idx) idx else data C"
      show ?thesis
      proof (cases "ix_set ?d idx (data S)")
        case (Inl e)
        with assms idx block close show ?thesis
          by (simp add: set_subcovariance_def bind_result_def Let_def)
      next
        case (Inr d')
        with assms idx block close have "C' = C\<lparr>data := d'\<rparr>"
          by (simp add: set_subcovariance_def bind_result_def Let_def)
        with idx block close Inr show ?thesis by simp
      qed
    qed
  qed
qed

lemma set_subcovariance_shape:
  assumes "set_subcovariance C S = Inr C'" "is_matrix n m (data C)"
  shows "parameters C' = parameters C \<and> is_matrix n m (data C')"
proof -
  from set_subcovariance_steps [OF assms(1)] obtain idx close d' where
    s: "ix_set (if \<not> close then zero_cols (zero_rows (data C) idx) idx else data C)
               idx (data S) = Inr d'"
    and c: "C' = C\<lparr>data := d'\<rparr>"
    by (elim exE conjE)
  have "is_matrix n m (if \<not> close then zero_cols (zero_rows (data C) idx) idx else data C)"
    using assms(2) zeroed_shape [OF assms(2)] by simp
  from ix_set_shape [OF s this] c show ?thesis by simp
qed

lemma set_subcovariances_shape:
  "set_subcovariances C xs = Inr C' \<Longrightarrow> is_matrix n m (data C) \<Longrightarrow>
   parameters C' = parameters C \<and> is_matrix n m (data C')"
proof (induction xs arbitrary: C)
  case Nil
  then show ?case by simp
next
  case (Cons S xs)
  from Cons.prems(1) obtain C1 where
    s1: "set_subcovariance C S = Inr C1" and s2: "set_subcovariances C1 xs = Inr C'"
    by (cases "set_subcovariance C S") (simp_all add: bind_result_def)
  from set_subcovariance_shape [OF s1 Cons.prems(2)]
  have p: "parameters C1 = parameters C" and m: "is_matrix n m (data C1)" by simp_all
  from Cons.IH [OF s2 m] p show ?case by simp
qed

lemma set_subcovariances_append:
  "set_subcovariances C (xs @ [S]) =
     bind_result (set_subcovariances C xs) (\<lambda>c. set_subcovariance c S)"
proof (induction xs arbitrary: C)
  case Nil
  show ?case by (cases "set_subcovariance C S") (simp_all add: bind_result_def)
next
  case (Cons T xs)
  show ?case
    by (cases "set_subcovariance C T") (simp_all add: bind_result_def Cons.IH)
qed

lemma unique_parameters_ids:
  "par_id ` set (unique_parameters seen ps) = par_id ` set seen \<union> par_id ` set ps"
  by (induction ps arbitrary: seen) auto

lemma from_stack_last:
  assumes st: "Covariance_from_stack (xs @ [S]) = Inr C"
    and S: "is_matrix (length (parameters S)) (length (parameters S)) (data S)"
    and dist: "distinct (map par_id (parameters S))"
  shows "\<exists>idx. parameter_indices (parameters C) (parameters S) = Inr idx
           \<and> ix_get (data C) idx = Inr (data S)"
proof -
  let ?pool = "Parameters_from_stack (map parameters (xs @ [S]))"
  let ?errs = "map (\<lambda>p. fl_mul (par_error p) (par_error p)) ?pool"
  define C0 where "C0 = Covariance_init ?pool None None"
  have p0: "parameters C0 = ?pool" by (simp add: C0_def Covariance_init_def)
  have m0: "is_matrix (length ?pool) (length ?pool) (data C0)"
    using np_diag_matrix [of ?errs] by (simp add: C0_def Covariance_init_def)
  have "set_subcovariances C0 (xs @ [S]) = Inr C"
    using st unfolding Covariance_from_stack_def Let_def C0_def .
  then have "bind_result (set_subcovariances C0 xs) (\<lambda>c. set_subcovariance c S) = Inr C"
    by (simp only: set_subcovariances_append)
  then obtain C1 where s1: "set_subcovariances C0 xs = Inr C1"
    and s2: "set_subcovariance C1 S = Inr C"
    by (cases "set_subcovariances C0 xs") (simp_all add: bind_result_def)
  from set_subcovariances_shape [OF s1 m0]
  have p1: "parameters C1 = ?pool" and m1: "is_matrix (length ?pool) (length ?pool) (data C1)"
    by (simp_all add: p0)
  have m1': "is_matrix (length (parameters C1)) (length (parameters C1)) (data C1)"
    using m1 by (simp add: p1)
  have "par_id ` set (parameters S) \<subseteq> par_id ` set ?pool"
    by (simp add: Parameters_from_stack_def unique_parameters_ids image_Un)
  then have sub: "par_id ` set (parameters S) \<subseteq> par_id ` set (parameters C1)"
    by (simp only: p1)
  from set_subcovariance_entries [OF m1' S sub dist] obtain idx r where
    i: "parameter_indices (parameters C1) (parameters S) = Inr idx"
    and g: "ix_get r idx = Inr (data S)"
    and e: "set_subcovariance C1 S = Inr (C1\<lparr>data := r\<rparr>)"
    by (elim exE conjE)
  from e s2 have "C = C1\<lparr>data := r\<rparr>" by simp
  with i g show ?thesis by simp
qed

text \<open>
  Claim C5, amended. \<open>from_stack\<close> stacks the pools, starts from the covariance that the
  constructor builds when it is given no matrix, the diagonal of the squared errors
  of the parameters (not a matrix of zeros), and applies \<open>set_subcovariance\<close> for each
  sub-covariance in the order of the list. A later sub-covariance overrides the earlier
  ones: in the result, the block of the last one is its own matrix. For two
  sub-covariances over disjoint parameters (of sizes 2 and 3, or any other) the result
  has the two matrices as diagonal blocks and zero everywhere else.
\<close>

theorem Covariance_from_stack_steps:
  "Covariance_from_stack covar_list =
     set_subcovariances
       \<lparr>parameters = Parameters_from_stack (map parameters covar_list), filename = None,
        data = np_diag (map (\<lambda>p. fl_mul (par_error p) (par_error p))
                 (Parameters_from_stack (map parameters covar_list)))\<rparr>
       covar_list
   \<and> (Covariance_from_stack (earlier @ [S]) = Inr C
      \<and> is_matrix (length (parameters S)) (length (parameters S)) (data S)
      \<and> distinct (map par_id (parameters S)) \<longrightarrow>
      (\<exists>idx. parameter_indices (parameters C) (parameters S) = Inr idx
           \<and> ix_get (data C) idx = Inr (data S)))
   \<and> (is_matrix (length (parameters S1)) (length (parameters S1)) (data S1)
      \<and> is_matrix (length (parameters S2)) (length (parameters S2)) (data S2)
      \<and> distinct (map par_id (parameters S1 @ parameters S2)) \<longrightarrow>
      (\<exists>C. Covariance_from_stack [S1, S2] = Inr C
           \<and> parameters C = parameters S1 @ parameters S2
           \<and> is_matrix (length (parameters S1) + length (parameters S2))
                (length (parameters S1) + length (parameters S2)) (data C)
           \<and> (\<forall>i<length (parameters S1) + length (parameters S2).
              \<forall>j<length (parameters S1) + length (parameters S2).
                data C ! i ! j =
                  (if i < length (parameters S1) \<and> j < length (parameters S1)
                     then data S1 ! i ! j
                   else if length (parameters S1) \<le> i \<and> length (parameters S1) \<le> j
                     then data S2 ! (i - length (parameters S1)) ! (j - length (parameters S1))
                   else Fin 0))))"
proof (intro conjI impI)
  show "Covariance_from_stack covar_list =
     set_subcovariances
       \<lparr>parameters = Parameters_from_stack (map parameters covar_list), filename = None,
        data = np_diag (map (\<lambda>p. fl_mul (par_error p) (par_error p))
                 (Parameters_from_stack (map parameters covar_list)))\<rparr>
       covar_list"
    by (simp add: Covariance_from_stack_def Covariance_init_def Let_def)
next
  assume "Covariance_from_stack (earlier @ [S]) = Inr C
      \<and> is_matrix (length (parameters S)) (length (parameters S)) (data S)
      \<and> distinct (map par_id (parameters S))"
  then show "\<exists>idx. parameter_indices (parameters C) (parameters S) = Inr idx
           \<and> ix_get (data C) idx = Inr (data S)"
    using from_stack_last [of earlier S C] by blast
next
  assume "is_matrix (length (parameters S1)) (length (parameters S1)) (data S1)
      \<and> is_matrix (length (parameters S2)) (length (parameters S2)) (data S2)
      \<and> distinct (map par_id (parameters S1 @ parameters S2))"
  then show "\<exists>C. Covariance_from_stack [S1, S2] = Inr C
           \<and> parameters C = parameters S1 @ parameters S2
           \<and> is_matrix (length (parameters S1) + length (parameters S2))
                (length (parameters S1) + length (parameters S2)) (data C)
           \<and> (\<forall>i<length (parameters S1) + length (parameters S2).
              \<forall>j<length (parameters S1) + length (parameters S2).
                data C ! i ! j =
                  (if i < length (parameters S1) \<and> j < length (parameters S1)
                     then data S1 ! i ! j
                   else if length (parameters S1) \<le> i \<and> length (parameters S1) \<le> j
                     then data S2 ! (i - length (parameters S1)) ! (j - length (parameters S1))
                   else Fin 0))"
    using from_stack_two_blocks [of S1 S2] by blast
qed

lemmas stack_defs = Covariance_from_stack_def from_stack_from_zeros_def
  Parameters_from_stack_def sPQ_def sQR_def sRTU_def pP_def pQ_def pR_def pT_def pU_def par_def
  Covariance_init_def

lemmas matrix_defs = set_subcovariance_def parameter_indices_def Parameters_index_def
  bind_result_def ix_get_def np_allclose_def same_shape_def zero_rows_def zero_cols_def
  ix_set_def is_matrix_def np_diag_def np_zeros_def Let_def nth_Cons' upt_rec

lemma from_stack_overlap:
  "Covariance_from_stack [sPQ, sQR] =
     Inr \<lparr>parameters = [pP, pQ, pR], filename = None,
          data = [[Fin 1, Fin 0, Fin 0], [Fin 0, Fin 1, Fin 0], [Fin 0, Fin 0, Fin 0]]\<rparr>"
  by (simp add: stack_defs matrix_defs)

lemma from_zeros_overlap:
  "from_stack_from_zeros [sPQ, sQR] =
     Inr \<lparr>parameters = [pP, pQ, pR], filename = None,
          data = [[Fin 1, Fin (1/2), Fin 0], [Fin (1/2), Fin 1, Fin 0],
                  [Fin 0, Fin 0, Fin 0]]\<rparr>"
  by (simp add: stack_defs matrix_defs)

theorem from_stack_zero_start_counterexample:
  "Covariance_from_stack [sPQ, sQR] \<noteq> from_stack_from_zeros [sPQ, sQR]"
  by (simp add: from_stack_overlap from_zeros_overlap)

theorem Covariance_from_stack_steps_witness:
  "(\<exists>idx. parameter_indices [pP, pQ, pR] (parameters sQR) = Inr idx
        \<and> ix_get [[Fin 1, Fin 0, Fin 0], [Fin 0, Fin 1, Fin 0], [Fin 0, Fin 0, Fin 0]] idx
            = Inr (data sQR))
   \<and> (\<exists>C. Covariance_from_stack [sPQ, sRTU] = Inr C
           \<and> parameters C = parameters sPQ @ parameters sRTU
           \<and> is_matrix (length (parameters sPQ) + length (parameters sRTU))
                (length (parameters sPQ) + length (parameters sRTU)) (data C)
           \<and> (\<forall>i<length (parameters sPQ) + length (parameters sRTU).
              \<forall>j<length (parameters sPQ) + length (parameters sRTU).
                data C ! i ! j =
                  (if i < length (parameters sPQ) \<and> j < length (parameters sPQ)
                     then data sPQ ! i ! j
                   else if length (parameters sPQ) \<le> i \<and> length (parameters sPQ) \<le> j
                     then data sRTU ! (i - length (parameters sPQ)) ! (j - length (parameters sPQ))
                   else Fin 0)))"
proof -
  let ?C = "\<lparr>parameters = [pP, pQ, pR], filename = None,
          data = [[Fin 1, Fin 0, Fin 0], [Fin 0, Fin 1, Fin 0], [Fin 0, Fin 0, Fin 0]]\<rparr>"
  have h: "is_matrix (length (parameters sPQ)) (length (parameters sPQ)) (data sPQ)
      \<and> is_matrix (length (parameters sRTU)) (length (parameters sRTU)) (data sRTU)
      \<and> distinct (map par_id (parameters sPQ @ parameters sRTU))"
    by (simp add: stack_defs is_matrix_def)
  have g: "Covariance_from_stack ([sPQ] @ [sQR]) = Inr ?C
      \<and> is_matrix (length (parameters sQR)) (length (parameters sQR)) (data sQR)
      \<and> distinct (map par_id (parameters sQR))"
    using from_stack_overlap by (simp add: sQR_def pQ_def pR_def par_def Covariance_init_def
        is_matrix_def)
  from Covariance_from_stack_steps [of "[sPQ, sRTU]" "[sPQ]" sQR ?C sPQ sRTU] h g
  have "(\<exists>idx. parameter_indices (parameters ?C) (parameters sQR) = Inr idx
           \<and> ix_get (data ?C) idx = Inr (data sQR))
      \<and> (\<exists>C. Covariance_from_stack [sPQ, sRTU] = Inr C
           \<and> parameters C = parameters sPQ @ parameters sRTU
           \<and> is_matrix (length (parameters sPQ) + length (parameters sRTU))
                (length (parameters sPQ) + length (parameters sRTU)) (data C)
           \<and> (\<forall>i<length (parameters sPQ) + length (parameters sRTU).
              \<forall>j<length (parameters sPQ) + length (parameters sRTU).
                data C ! i ! j =
                  (if i < length (parameters sPQ) \<and> j < length (parameters sPQ)
                     then data sPQ ! i ! j
                   else if length (parameters sPQ) \<le> i \<and> length (parameters sPQ) \<le> j
                     then data sRTU ! (i - length (parameters sPQ)) ! (j - length (parameters sPQ))
                   else Fin 0)))"
    by blast
  then show ?thesis by simp
qed

lemma from_stack_disjoint:
  "Covariance_from_stack [sPQ, sRTU] =
     Inr \<lparr>parameters = [pP, pQ, pR, pT, pU], filename = None,
          data = [[Fin 1, Fin (1/2), Fin 0, Fin 0, Fin 0],
                  [Fin (1/2), Fin 1, Fin 0, Fin 0, Fin 0],
                  [Fin 0, Fin 0, Fin 4, Fin 1, Fin 2],
                  [Fin 0, Fin 0, Fin 1, Fin 9, Fin 3],
                  [Fin 0, Fin 0, Fin 2, Fin 3, Fin 16]]\<rparr>"
  by (simp add: stack_defs matrix_defs)

subsection \<open>Correlation\<close>

lemma np_diagonal_matrix:
  assumes "is_matrix n n m"
  shows "np_diagonal m = map (\<lambda>i. m ! i ! i) [0..<n]"
proof (cases m)
  case Nil
  with assms show ?thesis by (simp add: np_diagonal_def is_matrix_def)
next
  case (Cons row rest)
  with assms have "length row = n" "length m = n" by (auto simp: is_matrix_def)
  with Cons show ?thesis by (simp add: np_diagonal_def)
qed

lemma np_outer64_matrix: "is_matrix (length a) (length b) (np_outer64 a b)"
  by (simp add: is_matrix_def np_outer64_def list_all_iff)

lemma correlation_value:
  assumes "is_matrix n n d"
  shows "\<exists>R. correlation d = Inr R \<and> is_matrix n n R
           \<and> (\<forall>i<n. \<forall>j<n. R ! i ! j =
                 nan_to_num (f64_div (d ! i ! j)
                   (f64_mul (f64_sqrt (d ! i ! i)) (f64_sqrt (d ! j ! j)))))"
proof -
  let ?err = "map f64_sqrt (np_diagonal d)"
  have err: "?err = map (\<lambda>i. f64_sqrt (d ! i ! i)) [0..<n]"
    by (simp add: np_diagonal_matrix [OF assms])
  have o: "is_matrix n n (np_outer64 ?err ?err)"
    using np_outer64_matrix [of ?err ?err] by (simp add: err)
  from np_binop2_matrix [OF assms o, of f64_div] obtain m where
    m: "np_binop2 f64_div d (np_outer64 ?err ?err) = Inr m" "is_matrix n n m"
       "\<forall>i<n. \<forall>j<n. m ! i ! j = f64_div (d ! i ! j) (np_outer64 ?err ?err ! i ! j)"
    by blast
  have oe: "np_outer64 ?err ?err ! i ! j = f64_mul (f64_sqrt (d ! i ! i)) (f64_sqrt (d ! j ! j))"
    if "i < n" "j < n" for i j
    using that by (simp add: err np_outer64_def)
  have c: "correlation d = Inr (map (map nan_to_num) m)"
    using m(1) by (simp add: correlation_def bind_result_def Let_def)
  have mm: "is_matrix n n (map (map nan_to_num) m)"
    using m(2) by (simp add: is_matrix_def list_all_length)
  have e: "map (map nan_to_num) m ! i ! j =
             nan_to_num (f64_div (d ! i ! j)
                   (f64_mul (f64_sqrt (d ! i ! i)) (f64_sqrt (d ! j ! j))))"
    if "i < n" "j < n" for i j
    using that m(2,3) oe [OF that] by (simp add: is_matrix_def list_all_length)
  from c mm e show ?thesis by blast
qed

lemma is_zero_sqrt: "is_zero a \<Longrightarrow> is_zero (f64_sqrt a)"
  by (cases a) (simp_all add: signed_zero_def)

lemma mul_zero:
  assumes "is_zero z"
  shows "is_nan (f64_mul z t) \<or> is_zero (f64_mul z t)"
    and "is_nan (f64_mul t z) \<or> is_zero (f64_mul t z)"
  using assms by (cases z; cases t; simp add: f64_mul_def signed_zero_def)+

lemma div_zero:
  assumes "is_zero x" "is_nan y \<or> is_zero y"
  shows "f64_div x y = NotANumber"
  using assms by (cases x; cases y; simp add: f64_div_def)

lemma zero_variance_entry:
  assumes "is_zero a \<or> is_zero b" "is_zero x"
  shows "nan_to_num (f64_div x (f64_mul (f64_sqrt a) (f64_sqrt b))) = Finite 0"
proof -
  have "is_nan (f64_mul (f64_sqrt a) (f64_sqrt b)) \<or> is_zero (f64_mul (f64_sqrt a) (f64_sqrt b))"
    using assms(1) mul_zero [OF is_zero_sqrt] by blast
  from div_zero [OF assms(2) this] show ?thesis by simp
qed

lemma nan_to_num_finite: "\<not> is_nan (nan_to_num q) \<and> \<not> is_inf (nan_to_num q)"
  by (cases q) simp_all


text \<open>
  Claim C8, amended. For a square matrix \<open>d\<close> of float64, the entry \<open>(i, j)\<close> of the correlation is
  the float64 quotient of \<open>d[i][j]\<close> by the float64 product of the float64 square roots of
  \<open>d[i][i]\<close> and \<open>d[j][j]\<close>, where NaN is replaced by zero, the positive infinity by the largest
  finite float64 and the negative infinity by its opposite (not by zero). No entry of the
  result is NaN or infinite. An entry that is zero in the row or the column of a variance
  that is zero is 0 in the result, and so is the diagonal at a variance that is zero.
  Nothing is stated of the diagonal at a positive variance: it is the quotient above,
  which rounding can take away from 1.
\<close>

theorem correlation_entries:
  assumes "is_matrix n n d"
  shows "\<exists>R. correlation d = Inr R \<and> is_matrix n n R
           \<and> (\<forall>i<n. \<forall>j<n. R ! i ! j =
                 (case f64_div (d ! i ! j)
                         (f64_mul (f64_sqrt (d ! i ! i)) (f64_sqrt (d ! j ! j))) of
                    NotANumber \<Rightarrow> Finite 0
                  | PlusInf \<Rightarrow> Finite float_max
                  | MinusInf \<Rightarrow> Finite (- float_max)
                  | Finite x \<Rightarrow> Finite x
                  | MinusZero \<Rightarrow> MinusZero))
           \<and> (\<forall>i<n. \<forall>j<n. \<not> is_nan (R ! i ! j) \<and> \<not> is_inf (R ! i ! j))
           \<and> (\<forall>i<n. \<forall>j<n. (is_zero (d ! i ! i) \<or> is_zero (d ! j ! j)) \<and> is_zero (d ! i ! j)
                 \<longrightarrow> R ! i ! j = Finite 0)
           \<and> (\<forall>i<n. is_zero (d ! i ! i) \<longrightarrow> R ! i ! i = Finite 0)"
proof -
  from correlation_value [OF assms] obtain R where
    R: "correlation d = Inr R" "is_matrix n n R"
       "\<forall>i<n. \<forall>j<n. R ! i ! j =
                 nan_to_num (f64_div (d ! i ! j)
                   (f64_mul (f64_sqrt (d ! i ! i)) (f64_sqrt (d ! j ! j))))"
    by blast
  have n2n: "nan_to_num q = (case q of NotANumber \<Rightarrow> Finite 0 | PlusInf \<Rightarrow> Finite float_max
               | MinusInf \<Rightarrow> Finite (- float_max) | Finite x \<Rightarrow> Finite x
               | MinusZero \<Rightarrow> MinusZero)" for q
    by (cases q) simp_all
  have a: "\<forall>i<n. \<forall>j<n. R ! i ! j =
                 (case f64_div (d ! i ! j)
                         (f64_mul (f64_sqrt (d ! i ! i)) (f64_sqrt (d ! j ! j))) of
                    NotANumber \<Rightarrow> Finite 0
                  | PlusInf \<Rightarrow> Finite float_max
                  | MinusInf \<Rightarrow> Finite (- float_max)
                  | Finite x \<Rightarrow> Finite x
                  | MinusZero \<Rightarrow> MinusZero)"
    using R(3) by (simp only: n2n)
  have b: "\<not> is_nan (R ! i ! j) \<and> \<not> is_inf (R ! i ! j)" if "i < n" "j < n" for i j
    using R(3) that nan_to_num_finite by simp
  have c: "R ! i ! j = Finite 0"
    if "i < n" "j < n" "is_zero (d ! i ! i) \<or> is_zero (d ! j ! j)" "is_zero (d ! i ! j)" for i j
    using R(3) that(1,2) zero_variance_entry [OF that(3,4)] by simp
  have e: "R ! i ! i = Finite 0" if "i < n" "is_zero (d ! i ! i)" for i
    using c [OF that(1) that(1)] that(2) by simp
  from R(1,2) a b c e show ?thesis by blast
qed

lemmas correlation_defs = correlation_def correlation_zeroing_def np_diagonal_def
  np_outer64_def np_binop2_def same_shape_def bind_result_def

lemma correlation_zero_variance:
  "correlation zero_variance =
     Inr [[Finite 0, Finite float_max], [Finite float_max, Finite 1]]"
  "correlation_zeroing zero_variance = Inr [[Finite 0, Finite 0], [Finite 0, Finite 1]]"
  by (simp_all add: zero_variance_def correlation_defs f64_defs)

lemma correlation_variance_two:
  "correlation variance_two = Inr [[Finite (9007199254740990 / 2 ^ 53)]]"
proof -
  have "correlation variance_two =
          Inr [[nan_to_num (f64_div (Finite 2)
                  (f64_mul (f64_sqrt (Finite 2)) (f64_sqrt (Finite 2))))]]"
    by (simp add: variance_two_def correlation_defs del: f64_sqrt.simps)
  then show ?thesis by (simp only: unit_diagonal_two nan_to_num.simps)
qed

theorem correlation_counterexample:
  "correlation zero_variance =
     Inr [[Finite 0, Finite float_max], [Finite float_max, Finite 1]]
   \<and> correlation zero_variance \<noteq> correlation_zeroing zero_variance
   \<and> correlation variance_two = Inr [[Finite (9007199254740990 / 2 ^ 53)]]
   \<and> correlation variance_two \<noteq> Inr [[Finite 1]]"
proof -
  have a: "correlation zero_variance \<noteq> correlation_zeroing zero_variance"
    using float_max_pos by (simp add: correlation_zero_variance)
  have b: "correlation variance_two \<noteq> Inr [[Finite 1]]"
    by (simp add: correlation_variance_two)
  from a b correlation_zero_variance(1) correlation_variance_two show ?thesis by simp
qed

lemma correlation_frozen:
  "correlation frozen_data =
     Inr [[Finite 1, Finite 0, Finite 0],
          [Finite 0, Finite 0, Finite 0],
          [Finite 0, Finite 0, Finite 0]]"
proof -
  have s4: "sqrt 4 = 2"
    using real_sqrt_abs [of 2] by simp
  show ?thesis
    by (simp add: frozen_data_def correlation_defs f64_defs s4)
qed

theorem correlation_entries_witness:
  "(\<exists>R. correlation frozen_data = Inr R \<and> is_matrix 3 3 R
           \<and> (\<forall>i<3. \<forall>j<3. R ! i ! j =
                 (case f64_div (frozen_data ! i ! j)
                         (f64_mul (f64_sqrt (frozen_data ! i ! i))
                                  (f64_sqrt (frozen_data ! j ! j))) of
                    NotANumber \<Rightarrow> Finite 0
                  | PlusInf \<Rightarrow> Finite float_max
                  | MinusInf \<Rightarrow> Finite (- float_max)
                  | Finite x \<Rightarrow> Finite x
                  | MinusZero \<Rightarrow> MinusZero))
           \<and> (\<forall>i<3. \<forall>j<3. \<not> is_nan (R ! i ! j) \<and> \<not> is_inf (R ! i ! j))
           \<and> (\<forall>i<3. \<forall>j<3. (is_zero (frozen_data ! i ! i) \<or> is_zero (frozen_data ! j ! j))
                   \<and> is_zero (frozen_data ! i ! j)
                 \<longrightarrow> R ! i ! j = Finite 0)
           \<and> (\<forall>i<3. is_zero (frozen_data ! i ! i) \<longrightarrow> R ! i ! i = Finite 0))
   \<and> is_zero (frozen_data ! 2 ! 2) \<and> is_zero (frozen_data ! 1 ! 1)
   \<and> correlation frozen_data =
       Inr [[Finite 1, Finite 0, Finite 0],
            [Finite 0, Finite 0, Finite 0],
            [Finite 0, Finite 0, Finite 0]]"
proof -
  have m: "is_matrix 3 3 frozen_data"
    by (simp add: frozen_data_def is_matrix_def)
  have z: "is_zero (frozen_data ! 2 ! 2)" "is_zero (frozen_data ! 1 ! 1)"
    by (simp_all add: frozen_data_def)
  from correlation_entries [OF m] z correlation_frozen show ?thesis by blast
qed

lemma correlation_overflow:
  "correlation huge_quotient =
     Inr [[Finite 1, Finite float_max], [Finite float_max, Finite 1]]"
proof -
  let ?a = "Finite (2 powi (- 1000))" and ?b = "Finite (2 powi 1000)"
  have s: "f64_sqrt ?a = Finite (2 powi (- 500))"
    by (rule sqrt_pow2_f64) simp_all
  have p: "f64_mul (Finite (2 powi (- 500))) (Finite (2 powi (- 500))) = ?a"
    by (rule mul_pow2_f64) simp_all
  have "f64_div ?a ?a = Finite (2 powi 0)"
    by (rule div_pow2_f64) simp_all
  then have d1: "f64_div ?a ?a = Finite 1"
    by (simp only: power_int_0_right)
  have d2: "f64_div ?b ?a = PlusInf"
    by (rule div_pow2_overflow [of 2000]) simp_all
  have "correlation huge_quotient =
          Inr [[nan_to_num (f64_div ?a (f64_mul (f64_sqrt ?a) (f64_sqrt ?a))),
                nan_to_num (f64_div ?b (f64_mul (f64_sqrt ?a) (f64_sqrt ?a)))],
               [nan_to_num (f64_div ?b (f64_mul (f64_sqrt ?a) (f64_sqrt ?a))),
                nan_to_num (f64_div ?a (f64_mul (f64_sqrt ?a) (f64_sqrt ?a)))]]"
    by (simp add: huge_quotient_def correlation_defs
        del: f64_sqrt.simps power_int_numeral_neg_numeral power_int_numeral)
  then show ?thesis by (simp only: s p d1 d2 nan_to_num.simps)
qed

section \<open>Properties of the copy\<close>

subsection \<open>The deep copy leaves the store of before in place\<close>

lemma framed_refl: "framed h h"
  by (simp add: framed_def)

lemma framed_length: "framed h0 h \<Longrightarrow> length h0 \<le> length h"
  by (simp add: framed_def)

lemma framed_prefix: "framed h0 h \<Longrightarrow> take (length h0) h = h0"
  by (simp add: framed_def)

lemma framed_refs:
  "framed h0 h \<Longrightarrow> length h0 \<le> a \<Longrightarrow> a < length h \<Longrightarrow> r \<in> set (cell_refs (h ! a)) \<Longrightarrow>
   length h0 \<le> r \<and> r < length h"
  unfolding framed_def by blast

lemma framedI:
  assumes "length h0 \<le> length h" "take (length h0) h = h0"
    and "\<And>a r. length h0 \<le> a \<Longrightarrow> a < length h \<Longrightarrow> r \<in> set (cell_refs (h ! a)) \<Longrightarrow>
           length h0 \<le> r \<and> r < length h"
  shows "framed h0 h"
  unfolding framed_def using assms by blast

lemma framed_append:
  assumes f: "framed h0 h"
    and c: "\<forall>r\<in>set (cell_refs c). length h0 \<le> r \<and> r < Suc (length h)"
  shows "framed h0 (h @ [c])"
proof (rule framedI)
  show "length h0 \<le> length (h @ [c])"
    using framed_length [OF f] by simp
  show "take (length h0) (h @ [c]) = h0"
    using framed_length [OF f] framed_prefix [OF f] by simp
next
  fix a r
  assume a: "length h0 \<le> a" "a < length (h @ [c])" and r: "r \<in> set (cell_refs ((h @ [c]) ! a))"
  show "length h0 \<le> r \<and> r < length (h @ [c])"
  proof (cases "a < length h")
    case True
    then have "(h @ [c]) ! a = h ! a" by (simp add: nth_append)
    with r have "r \<in> set (cell_refs (h ! a))" by simp
    from framed_refs [OF f a(1) True this] show ?thesis by simp
  next
    case False
    with a(2) have "a = length h" by simp
    then have "(h @ [c]) ! a = c" by simp
    with r c show ?thesis by simp
  qed
qed

lemma framed_update:
  assumes f: "framed h0 h" and a: "length h0 \<le> a"
    and c: "cell_refs c = cell_refs (h ! a)"
  shows "framed h0 (h[a := c])"
proof (rule framedI)
  show "length h0 \<le> length (h[a := c])"
    using framed_length [OF f] by simp
  show "take (length h0) (h[a := c]) = h0"
    using a framed_prefix [OF f] by (simp add: take_update_cancel)
next
  fix b r
  assume b: "length h0 \<le> b" "b < length (h[a := c])"
    and r: "r \<in> set (cell_refs (h[a := c] ! b))"
  from b(2) have b': "b < length h" by simp
  have "cell_refs (h[a := c] ! b) = cell_refs (h ! b)"
    using c b' by (cases "a = b") simp_all
  with r have "r \<in> set (cell_refs (h ! b))" by simp
  from framed_refs [OF f b(1) b' this] show "length h0 \<le> r \<and> r < length (h[a := c])"
    by simp
qed

lemma memo_fresh_append:
  assumes "memo_fresh h0 h mm"
  shows "memo_fresh h0 (h @ [c]) mm"
  unfolding memo_fresh_def
proof
  fix x assume "x \<in> set mm"
  with assms have "length h0 \<le> snd x \<and> snd x < length h"
    unfolding memo_fresh_def by (cases x) auto
  then show "case x of (a, a') \<Rightarrow> length h0 \<le> a' \<and> a' < length (h @ [c])"
    by (cases x) simp
qed

lemma memo_fresh_Cons:
  "memo_fresh h0 h mm \<Longrightarrow> length h0 \<le> a' \<Longrightarrow> a' < length h \<Longrightarrow>
   memo_fresh h0 h ((a, a') # mm)"
  by (simp add: memo_fresh_def)

lemma memo_fresh_lookup:
  assumes "memo_fresh h0 h mm" "map_of mm a = Some a'"
  shows "length h0 \<le> a' \<and> a' < length h"
proof -
  from assms(2) have "(a, a') \<in> set mm" by (rule map_of_SomeD)
  with assms(1) show ?thesis unfolding memo_fresh_def by blast
qed

lemma copy_names_memo:
  "map_of mm a = Some b \<Longrightarrow> copy_names h mm a = Inr (h, mm, b)"
  by (simp add: copy_names_def)

lemma copy_names_new:
  assumes "copy_names h mm a = Inr (h', mm', a')" "map_of mm a = None"
  shows "\<exists>l. h ! a = NamesCell l \<and> h' = h @ [NamesCell l]
           \<and> mm' = (a, length h) # mm \<and> a' = length h"
  using assms
  by (auto simp: copy_names_def split: if_splits cell.splits)

lemma copy_model_memo:
  "map_of mm a = Some b \<Longrightarrow> copy_model h mm a = Inr (h, mm, b)"
  by (simp add: copy_model_def)

lemma copy_model_new:
  assumes "copy_model h mm a = Inr (h', mm', a')" "map_of mm a = None"
  shows "(\<exists>n. h' = h @ [ModelCell n None] \<and> mm' = (a, length h) # mm \<and> a' = length h)
       \<or> (\<exists>n l h1 m1 l'. copy_names h mm l = Inr (h1, m1, l')
             \<and> h' = h1 @ [ModelCell n (Some l')] \<and> mm' = (a, length h1) # m1
             \<and> a' = length h1)"
  using assms
  by (auto simp: copy_model_def bind_result_def
      split: if_splits cell.splits option.splits sum.splits)

lemma copy_model_list_Cons:
  assumes "copy_model_list h mm (a # as) = Inr (h', mm', as')"
  shows "\<exists>h1 m1 a1 as2. copy_model h mm a = Inr (h1, m1, a1)
           \<and> copy_model_list h1 m1 as = Inr (h', mm', as2) \<and> as' = a1 # as2"
  using assms
  by (auto simp: bind_result_def split: sum.splits)

lemma copy_names_framed:
  assumes f: "framed h0 h" and m: "memo_fresh h0 h mm"
    and c: "copy_names h mm a = Inr (h', mm', a')"
  shows "framed h0 h' \<and> memo_fresh h0 h' mm' \<and> length h0 \<le> a' \<and> a' < length h'
         \<and> length h \<le> length h'"
proof (cases "map_of mm a")
  case (Some b)
  from copy_names_memo [OF Some, of h] c have "h' = h \<and> mm' = mm \<and> a' = b" by simp
  with f m memo_fresh_lookup [OF m Some] show ?thesis by simp
next
  case None
  from copy_names_new [OF c None] obtain l where
    r: "h' = h @ [NamesCell l] \<and> mm' = (a, length h) # mm \<and> a' = length h" by blast
  have n: "length h0 \<le> length h" by (rule framed_length [OF f])
  have "framed h0 (h @ [NamesCell l])"
    by (rule framed_append [OF f]) simp
  moreover have "memo_fresh h0 (h @ [NamesCell l]) ((a, length h) # mm)"
    by (rule memo_fresh_Cons [OF memo_fresh_append [OF m] n]) simp
  ultimately show ?thesis using r n by simp
qed

lemma copy_model_framed:
  assumes f: "framed h0 h" and m: "memo_fresh h0 h mm"
    and c: "copy_model h mm a = Inr (h', mm', a')"
  shows "framed h0 h' \<and> memo_fresh h0 h' mm' \<and> length h0 \<le> a' \<and> a' < length h'
         \<and> length h \<le> length h'"
proof (cases "map_of mm a")
  case (Some b)
  from copy_model_memo [OF Some, of h] c have "h' = h \<and> mm' = mm \<and> a' = b" by simp
  with f m memo_fresh_lookup [OF m Some] show ?thesis by simp
next
  case None
  from copy_model_new [OF c None] consider
    (plain) n where "h' = h @ [ModelCell n None] \<and> mm' = (a, length h) # mm \<and> a' = length h"
  | (names) n l h1 m1 l' where "copy_names h mm l = Inr (h1, m1, l')"
      "h' = h1 @ [ModelCell n (Some l')] \<and> mm' = (a, length h1) # m1 \<and> a' = length h1"
    by blast
  then show ?thesis
  proof cases
    case plain
    have n: "length h0 \<le> length h" by (rule framed_length [OF f])
    have "framed h0 (h @ [ModelCell n None])"
      by (rule framed_append [OF f]) simp
    moreover have "memo_fresh h0 (h @ [ModelCell n None]) ((a, length h) # mm)"
      by (rule memo_fresh_Cons [OF memo_fresh_append [OF m] n]) simp
    ultimately show ?thesis using plain n by simp
  next
    case names
    from copy_names_framed [OF f m names(1)]
    have f1: "framed h0 h1" and mf1: "memo_fresh h0 h1 m1"
      and l': "length h0 \<le> l'" "l' < length h1" and g: "length h \<le> length h1" by simp_all
    have n: "length h0 \<le> length h1" by (rule framed_length [OF f1])
    have "framed h0 (h1 @ [ModelCell n (Some l')])"
      using l' by (intro framed_append [OF f1]) simp
    moreover have "memo_fresh h0 (h1 @ [ModelCell n (Some l')]) ((a, length h1) # m1)"
      by (rule memo_fresh_Cons [OF memo_fresh_append [OF mf1] n]) simp
    ultimately show ?thesis using names(2) n g by simp
  qed
qed

lemma copy_model_list_framed:
  assumes "framed h0 h" "memo_fresh h0 h mm" "copy_model_list h mm as = Inr (h', mm', as')"
  shows "framed h0 h' \<and> memo_fresh h0 h' mm'
         \<and> (\<forall>a'\<in>set as'. length h0 \<le> a' \<and> a' < length h') \<and> length h \<le> length h'"
  using assms
proof (induction as arbitrary: h mm as')
  case Nil
  then show ?case by simp
next
  case (Cons a as)
  from copy_model_list_Cons [OF Cons.prems(3)] obtain h1 m1 a1 as2 where
    s1: "copy_model h mm a = Inr (h1, m1, a1)"
    and s2: "copy_model_list h1 m1 as = Inr (h', mm', as2)"
    and r: "as' = a1 # as2"
    by blast
  from copy_model_framed [OF Cons.prems(1,2) s1]
  have f1: "framed h0 h1" and mf1: "memo_fresh h0 h1 m1"
    and a1: "length h0 \<le> a1" "a1 < length h1" and g1: "length h \<le> length h1" by simp_all
  from Cons.IH [OF f1 mf1 s2]
  have f2: "framed h0 h'" and mf2: "memo_fresh h0 h' mm'"
    and as2: "\<forall>a'\<in>set as2. length h0 \<le> a' \<and> a' < length h'"
    and g2: "length h1 \<le> length h'" by simp_all
  from a1 g2 have "a1 < length h'" by simp
  with r f2 mf2 as2 a1 g1 g2 show ?case by simp
qed

lemma deepcopy_dataset_steps:
  assumes "deepcopy_dataset h a = Inr (h', new)"
  shows "\<exists>n ms bg h1 m1 ms' h2 m2 bg'.
           a < length h \<and> h ! a = DatasetCell n ms bg
         \<and> (ms = None \<and> h1 = h \<and> m1 = [] \<and> ms' = None
            \<or> (\<exists>l l'. ms = Some l \<and> copy_model_list h [] l = Inr (h1, m1, l') \<and> ms' = Some l'))
         \<and> (bg = None \<and> h2 = h1 \<and> m2 = m1 \<and> bg' = None
            \<or> (\<exists>b b'. bg = Some b \<and> copy_model h1 m1 b = Inr (h2, m2, b') \<and> bg' = Some b'))
         \<and> h' = h2 @ [DatasetCell n ms' bg'] \<and> new = length h2"
  using assms
  by (auto simp: deepcopy_dataset_def bind_result_def
      split: if_splits cell.splits option.splits sum.splits)

lemma deepcopy_dataset_framed:
  assumes "deepcopy_dataset h a = Inr (h', new)"
  shows "framed h h' \<and> a < length h \<and> length h \<le> new \<and> Suc new = length h'"
proof -
  from deepcopy_dataset_steps [OF assms] obtain n ms bg h1 m1 ms' h2 m2 bg' where
    all: "a < length h \<and> h ! a = DatasetCell n ms bg
         \<and> (ms = None \<and> h1 = h \<and> m1 = [] \<and> ms' = None
            \<or> (\<exists>l l'. ms = Some l \<and> copy_model_list h [] l = Inr (h1, m1, l') \<and> ms' = Some l'))
         \<and> (bg = None \<and> h2 = h1 \<and> m2 = m1 \<and> bg' = None
            \<or> (\<exists>b b'. bg = Some b \<and> copy_model h1 m1 b = Inr (h2, m2, b') \<and> bg' = Some b'))
         \<and> h' = h2 @ [DatasetCell n ms' bg'] \<and> new = length h2"
    by (elim exE) (rule that)
  from all have a: "a < length h" by (rule conjunct1)
  from all have s1: "ms = None \<and> h1 = h \<and> m1 = [] \<and> ms' = None
            \<or> (\<exists>l l'. ms = Some l \<and> copy_model_list h [] l = Inr (h1, m1, l') \<and> ms' = Some l')"
    by (elim conjE)
  from all have s2: "bg = None \<and> h2 = h1 \<and> m2 = m1 \<and> bg' = None
            \<or> (\<exists>b b'. bg = Some b \<and> copy_model h1 m1 b = Inr (h2, m2, b') \<and> bg' = Some b')"
    by (elim conjE)
  from all have r: "h' = h2 @ [DatasetCell n ms' bg'] \<and> new = length h2"
    by (elim conjE) (rule conjI)
  have f0: "framed h h" by (rule framed_refl)
  have m0: "memo_fresh h h []" by (simp add: memo_fresh_def)
  have st1: "framed h h1 \<and> memo_fresh h h1 m1
             \<and> (\<forall>l'. ms' = Some l' \<longrightarrow> (\<forall>x\<in>set l'. length h \<le> x \<and> x < length h1))"
    using s1
  proof
    assume "ms = None \<and> h1 = h \<and> m1 = [] \<and> ms' = None"
    with f0 m0 show ?thesis by simp
  next
    assume "\<exists>l l'. ms = Some l \<and> copy_model_list h [] l = Inr (h1, m1, l') \<and> ms' = Some l'"
    then obtain l l' where c: "copy_model_list h [] l = Inr (h1, m1, l')" and e: "ms' = Some l'"
      by blast
    from copy_model_list_framed [OF f0 m0 c] e show ?thesis by simp
  qed
  then have f1: "framed h h1" and m1: "memo_fresh h h1 m1"
    and ms': "\<forall>l'. ms' = Some l' \<longrightarrow> (\<forall>x\<in>set l'. length h \<le> x \<and> x < length h1)"
    by simp_all
  have st2: "framed h h2 \<and> length h1 \<le> length h2
             \<and> (\<forall>b'. bg' = Some b' \<longrightarrow> length h \<le> b' \<and> b' < length h2)"
    using s2
  proof
    assume "bg = None \<and> h2 = h1 \<and> m2 = m1 \<and> bg' = None"
    with f1 show ?thesis by simp
  next
    assume "\<exists>b b'. bg = Some b \<and> copy_model h1 m1 b = Inr (h2, m2, b') \<and> bg' = Some b'"
    then obtain b b' where c: "copy_model h1 m1 b = Inr (h2, m2, b')" and e: "bg' = Some b'"
      by blast
    from copy_model_framed [OF f1 m1 c] e show ?thesis by simp
  qed
  then have f2: "framed h h2" and g: "length h1 \<le> length h2"
    and bg': "\<forall>b'. bg' = Some b' \<longrightarrow> length h \<le> b' \<and> b' < length h2"
    by simp_all
  have in1: "length h \<le> x \<and> x < Suc (length h2)" if "ms' = Some l'" "x \<in> set l'" for x l'
  proof -
    from ms' that have "length h \<le> x \<and> x < length h1" by blast
    with g show ?thesis by simp
  qed
  have in2: "length h \<le> x \<and> x < Suc (length h2)" if "bg' = Some x" for x
  proof -
    from bg' that have "length h \<le> x \<and> x < length h2" by blast
    then show ?thesis by simp
  qed
  have refs: "\<forall>x\<in>set (cell_refs (DatasetCell n ms' bg')). length h \<le> x \<and> x < Suc (length h2)"
  proof
    fix x assume x: "x \<in> set (cell_refs (DatasetCell n ms' bg'))"
    show "length h \<le> x \<and> x < Suc (length h2)"
    proof (cases ms')
      case None
      show ?thesis
      proof (cases bg')
        case None': None
        with None x show ?thesis by simp
      next
        case (Some b)
        with None x have "x = b" by simp
        with Some in2 show ?thesis by blast
      qed
    next
      case (Some l)
      show ?thesis
      proof (cases bg')
        case None
        with Some x have "x \<in> set l" by simp
        with Some in1 show ?thesis by blast
      next
        case Some': (Some b)
        with Some x have "x \<in> set l \<or> x = b" by auto
        with Some Some' in1 in2 show ?thesis by blast
      qed
    qed
  qed
  have "framed h (h2 @ [DatasetCell n ms' bg'])"
    by (rule framed_append [OF f2 refs])
  moreover have "length h \<le> length h2" by (rule framed_length [OF f2])
  ultimately show ?thesis using r a by simp
qed

lemma set_dataset_name_length [simp]: "length (set_dataset_name h a n) = length h"
  by (simp add: set_dataset_name_def split: cell.splits)

lemma set_dataset_name_framed:
  assumes "framed h0 h" "length h0 \<le> a"
  shows "framed h0 (set_dataset_name h a n)"
proof (cases "a < length h")
  case False
  with assms(1) show ?thesis by (simp add: set_dataset_name_def)
next
  case True
  show ?thesis
  proof (cases "h ! a")
    case (DatasetCell x ms bg)
    have "framed h0 (h[a := DatasetCell n ms bg])"
      by (rule framed_update [OF assms]) (simp add: DatasetCell)
    with True DatasetCell show ?thesis by (simp add: set_dataset_name_def)
  next
    case (ModelCell x dn)
    with True assms(1) show ?thesis by (simp add: set_dataset_name_def)
  next
    case (NamesCell ds)
    with True assms(1) show ?thesis by (simp add: set_dataset_name_def)
  qed
qed

lemma rename_entry_cases:
  "rename_entry self l n h k = h
   \<or> (\<exists>ds. rename_entry self l n h k = h[l := NamesCell ds])"
  by (auto simp: rename_entry_def split: cell.splits)

lemma rename_entry_length [simp]: "length (rename_entry self l n h k) = length h"
  using rename_entry_cases [of self l n h k] by auto

lemma rename_entry_framed:
  assumes "framed h0 h" "length h0 \<le> l"
  shows "framed h0 (rename_entry self l n h k)"
proof -
  have "framed h0 (h[l := NamesCell ds])" if "rename_entry self l n h k = h[l := NamesCell ds]"
    and ne: "rename_entry self l n h k \<noteq> h" for ds
  proof -
    from ne obtain old where "h ! l = NamesCell old"
      by (auto simp: rename_entry_def split: if_splits cell.splits)
    then show ?thesis by (intro framed_update [OF assms]) simp
  qed
  with rename_entry_cases [of self l n h k] assms(1) show ?thesis by metis
qed

lemma rename_loop_framed:
  "framed h0 h \<Longrightarrow> length h0 \<le> l \<Longrightarrow> framed h0 (foldl (rename_entry self l n) h ks)"
  by (induction ks arbitrary: h) (simp_all add: rename_entry_framed)

lemma rename_loop_length [simp]: "length (foldl (rename_entry self l n) h ks) = length h"
  by (induction ks arbitrary: h) simp_all

lemma rename_names_length [simp]: "length (rename_names self l n h) = length h"
  by (simp add: rename_names_def split: cell.splits)

lemma rename_names_framed:
  "framed h0 h \<Longrightarrow> length h0 \<le> l \<Longrightarrow> framed h0 (rename_names self l n h)"
  by (simp add: rename_names_def rename_loop_framed split: cell.splits)

lemma rewire_model_cases:
  "rewire_model self new n h m = h
   \<or> (\<exists>x l. m < length h \<and> h ! m = ModelCell x (Some l)
        \<and> (rewire_model self new n h m = rename_names self l n h
           \<or> (\<exists>y dn. rename_names self l n h ! m = ModelCell y dn
                \<and> rewire_model self new n h m =
                    (rename_names self l n h)[m := ModelCell (n @ ''-bkg'') dn])))"
proof (cases "m < length h \<and> new < length h")
  case False
  then have "rewire_model self new n h m = h"
    unfolding rewire_model_def by (rule if_not_P)
  then show ?thesis by simp
next
  case True
  show ?thesis
  proof (cases "h ! m")
    case (DatasetCell x ms bg)
    with True show ?thesis by (simp add: rewire_model_def)
  next
    case (NamesCell ds)
    with True show ?thesis by (simp add: rewire_model_def)
  next
    case (ModelCell x dn)
    show ?thesis
    proof (cases dn)
      case None
      with True ModelCell show ?thesis by (simp add: rewire_model_def)
    next
      case (Some l)
      let ?h1 = "rename_names self l n h"
      have r: "rewire_model self new n h m =
          (case (?h1 ! new, ?h1 ! m) of
             (DatasetCell _ _ (Some b), ModelCell _ dn) \<Rightarrow>
               if m = b then ?h1[m := ModelCell (n @ ''-bkg'') dn] else ?h1
           | _ \<Rightarrow> ?h1)"
        using True ModelCell Some by (simp add: rewire_model_def Let_def)
      have "rewire_model self new n h m = ?h1
           \<or> (\<exists>y dn. ?h1 ! m = ModelCell y dn
                \<and> rewire_model self new n h m = ?h1[m := ModelCell (n @ ''-bkg'') dn])"
        unfolding r by (simp split: cell.splits option.splits)
      with True ModelCell Some show ?thesis by blast
    qed
  qed
qed

lemma rewire_model_length [simp]: "length (rewire_model self new n h m) = length h"
  using rewire_model_cases [of self new n h m] by auto

lemma rewire_model_framed:
  assumes f: "framed h0 h" and m: "length h0 \<le> m"
  shows "framed h0 (rewire_model self new n h m)"
  using rewire_model_cases [of self new n h m]
proof (elim disjE exE conjE)
  assume "rewire_model self new n h m = h"
  with f show ?thesis by simp
next
  fix x l
  assume b: "m < length h" and c: "h ! m = ModelCell x (Some l)"
    and e: "rewire_model self new n h m = rename_names self l n h"
  have "l \<in> set (cell_refs (h ! m))" by (simp add: c)
  from framed_refs [OF f m b this] have l: "length h0 \<le> l" by simp
  from rename_names_framed [OF f l] e show ?thesis by simp
next
  fix x l y dn
  assume b: "m < length h" and c: "h ! m = ModelCell x (Some l)"
    and c1: "rename_names self l n h ! m = ModelCell y dn"
    and e: "rewire_model self new n h m =
              (rename_names self l n h)[m := ModelCell (n @ ''-bkg'') dn]"
  have "l \<in> set (cell_refs (h ! m))" by (simp add: c)
  from framed_refs [OF f m b this] have l: "length h0 \<le> l" by simp
  have f1: "framed h0 (rename_names self l n h)"
    by (rule rename_names_framed [OF f l])
  have "framed h0 ((rename_names self l n h)[m := ModelCell (n @ ''-bkg'') dn])"
    by (rule framed_update [OF f1 m]) (simp add: c1)
  with e show ?thesis by simp
qed

lemma rewire_loop_framed:
  "framed h0 h \<Longrightarrow> \<forall>m\<in>set ms. length h0 \<le> m \<Longrightarrow>
   framed h0 (foldl (rewire_model self new n) h ms)"
  by (induction ms arbitrary: h) (simp_all add: rewire_model_framed)

lemma rewire_loop_length [simp]: "length (foldl (rewire_model self new n) h ms) = length h"
  by (induction ms arbitrary: h) simp_all

lemma Dataset_copy_steps:
  assumes "Dataset_copy fresh h self name_arg = Inr (h', new)"
  shows "\<exists>h1. deepcopy_dataset h self = Inr (h1, new)
          \<and> (h' = set_dataset_name h1 new (make_name fresh name_arg)
             \<or> (\<exists>x ms bg. set_dataset_name h1 new (make_name fresh name_arg) ! new
                              = DatasetCell x (Some ms) bg
                  \<and> h' = foldl (rewire_model self new (make_name fresh name_arg))
                           (set_dataset_name h1 new (make_name fresh name_arg)) ms))"
proof (cases "deepcopy_dataset h self")
  case (Inl e)
  with assms show ?thesis by (simp add: Dataset_copy_def bind_result_def)
next
  case (Inr p)
  obtain h1 new1 where p: "p = (h1, new1)" by (cases p)
  let ?h2 = "set_dataset_name h1 new1 (make_name fresh name_arg)"
  from assms Inr p have e: "(case ?h2 ! new1 of
            DatasetCell _ (Some ms) _ \<Rightarrow>
              Inr (foldl (rewire_model self new1 (make_name fresh name_arg)) ?h2 ms, new1)
          | _ \<Rightarrow> Inr (?h2, new1)) = (Inr (h', new) :: (heap \<times> nat) result)"
    by (simp add: Dataset_copy_def bind_result_def Let_def)
  then have n: "new1 = new"
    by (simp split: cell.splits option.splits)
  from e have "h' = ?h2
             \<or> (\<exists>x ms bg. ?h2 ! new1 = DatasetCell x (Some ms) bg
                  \<and> h' = foldl (rewire_model self new1 (make_name fresh name_arg)) ?h2 ms)"
    by (auto split: cell.splits option.splits)
  with Inr p n show ?thesis by simp
qed

subsection \<open>The original is untouched\<close>

text \<open>
  Claim C9. When \<open>copy\<close> returns, the dataset copied is an object of the store of
  before, the copy is a new object, and every object of the store of before is as it
  was: among them the dataset copied, with its name, its models and their lists of
  dataset names. What \<open>copy\<close> writes, it writes to objects made by the deep copy.
\<close>

theorem Dataset_copy_frame:
  assumes "Dataset_copy fresh h self name_arg = Inr (h', new)"
  shows "self < length h \<and> length h \<le> new \<and> new < length h'
       \<and> h' ! self = h ! self \<and> (\<forall>a<length h. h' ! a = h ! a)"
proof -
  let ?n = "make_name fresh name_arg"
  from Dataset_copy_steps [OF assms] obtain h1 where
    d: "deepcopy_dataset h self = Inr (h1, new)"
    and c: "h' = set_dataset_name h1 new ?n
             \<or> (\<exists>x ms bg. set_dataset_name h1 new ?n ! new = DatasetCell x (Some ms) bg
                  \<and> h' = foldl (rewire_model self new ?n) (set_dataset_name h1 new ?n) ms)"
    by (elim exE conjE)
  from deepcopy_dataset_framed [OF d]
  have f1: "framed h h1" and s: "self < length h" and n: "length h \<le> new"
    and l1: "Suc new = length h1" by simp_all
  let ?h2 = "set_dataset_name h1 new ?n"
  have f2: "framed h ?h2" by (rule set_dataset_name_framed [OF f1 n])
  have l2: "new < length ?h2" using l1 by simp
  from c have f: "framed h h' \<and> length h' = length h1"
  proof
    assume "h' = ?h2"
    with f2 show ?thesis by simp
  next
    assume "\<exists>x ms bg. ?h2 ! new = DatasetCell x (Some ms) bg
                  \<and> h' = foldl (rewire_model self new ?n) ?h2 ms"
    then obtain x ms bg where cell: "?h2 ! new = DatasetCell x (Some ms) bg"
      and e: "h' = foldl (rewire_model self new ?n) ?h2 ms"
      by (elim exE conjE)
    have "\<forall>m\<in>set ms. length h \<le> m"
    proof
      fix m assume "m \<in> set ms"
      then have "m \<in> set (cell_refs (?h2 ! new))" by (simp add: cell)
      from framed_refs [OF f2 n l2 this] show "length h \<le> m" by simp
    qed
    from rewire_loop_framed [OF f2 this] e show ?thesis by simp
  qed
  then have fr: "framed h h'" and l': "length h' = length h1" by simp_all
  have same: "h' ! a = h ! a" if "a < length h" for a
  proof -
    have "h ! a = take (length h) h' ! a" by (simp add: framed_prefix [OF fr])
    also have "\<dots> = h' ! a" using that by simp
    finally show ?thesis by simp
  qed
  from s n l1 l' same show ?thesis by simp
qed

lemmas copy_defs = Dataset_copy_def deepcopy_dataset_def copy_model_def copy_names_def
  set_dataset_name_def rewire_model_def rename_names_def rename_entry_def make_name_def
  bind_result_def store1_def Let_def nth_Cons' nth_append upt_rec

lemma Dataset_copy_store1:
  "Dataset_copy ''abcd1234'' store1 0 (Some ''d2'') =
     Inr (store1 @ [NamesCell [''d2'', ''d0''], ModelCell ''d2-bkg'' (Some 4),
                    ModelCell ''source'' (Some 4), DatasetCell ''d2'' (Some [5, 6]) (Some 5)],
          7)"
  by (simp add: copy_defs)

theorem Dataset_copy_frame_witness:
  "Dataset_copy ''abcd1234'' store1 0 (Some ''d2'') =
     Inr (store1 @ [NamesCell [''d2'', ''d0''], ModelCell ''d2-bkg'' (Some 4),
                    ModelCell ''source'' (Some 4), DatasetCell ''d2'' (Some [5, 6]) (Some 5)],
          7)
   \<and> (store1 @ [NamesCell [''d2'', ''d0''], ModelCell ''d2-bkg'' (Some 4),
                 ModelCell ''source'' (Some 4), DatasetCell ''d2'' (Some [5, 6]) (Some 5)]) ! 0
       = DatasetCell ''d1'' (Some [1, 2]) (Some 1)
   \<and> (store1 @ [NamesCell [''d2'', ''d0''], ModelCell ''d2-bkg'' (Some 4),
                 ModelCell ''source'' (Some 4), DatasetCell ''d2'' (Some [5, 6]) (Some 5)]) ! 3
       = NamesCell [''d1'', ''d0'']"
proof -
  have l: "(0::nat) < length store1" "(3::nat) < length store1"
    by (simp_all add: store1_def)
  have c: "store1 ! 0 = DatasetCell ''d1'' (Some [1, 2]) (Some 1)"
    "store1 ! 3 = NamesCell [''d1'', ''d0'']"
    by (simp_all add: store1_def)
  from Dataset_copy_frame [OF Dataset_copy_store1] l c Dataset_copy_store1
  show ?thesis by simp
qed

end
